theory Spec2Isabelle
  imports Main "HOL-Library.Product_Lexorder" "HOL-Library.Multiset"
begin

section \<open>Python values and exceptions\<close>

text \<open>
  The events plugin (\<^verbatim>\<open>src/events/events.py\<close>) is Python. Its functions are embedded
  as HOL functions; an exception is a value of \<open>error\<close>, and a function that may raise
  returns \<open>error + 'a\<close> (\<open>Inl\<close> is the exception). Python strings are modelled as
  \<open>string\<close>, a list of characters with the code points 0 to 255; Python integers as \<open>int\<close>.

  \<open>StrptimeError\<close> is the \<^verbatim>\<open>ValueError\<close> that \<^verbatim>\<open>datetime.strptime\<close> raises (its message
  is not modelled); the specification calls it \<^verbatim>\<open>MalformedTimestamp\<close>. \<open>ValueError\<close> and
  \<open>RuntimeError\<close> carry the message the plugin itself builds.
\<close>

datatype error =
    StrptimeError
  | ValueError string
  | RuntimeError string
  | KeyError string
  | AttributeError string
  | TypeError
  | IndexError
  | OverflowError
  | UnknownTimeZoneError string
  | IOError string

record datetime =
  year :: int
  month :: int
  day :: int
  hour :: int
  minute :: int
  second :: int

record timedelta =
  days :: int
  seconds :: int

text \<open>The values a metadata mapping or a setting holds.\<close>

datatype pyval = PNone | Str string | DateTime datetime

section \<open>Strings: whitespace, \<^verbatim>\<open>str.split()\<close>, \<^verbatim>\<open>int()\<close>\<close>

text \<open>
  The characters up to code point 255 for which \<^verbatim>\<open>str.isspace()\<close> holds: the blank, the
  controls 0x09 to 0x0D and 0x1C to 0x1F, the next-line control 0x85 and the no-break
  space 0xA0. \<^verbatim>\<open>str.split()\<close>, \<^verbatim>\<open>int()\<close> and the regular expression class \<^verbatim>\<open>\s\<close> of a
  string pattern all use this set; the only decimal digits in that range are 0 to 9.
\<close>

definition whitespace :: "char list" where
  "whitespace = [CHR '' '', CHR 0x09, CHR 0x0A, CHR 0x0B, CHR 0x0C, CHR 0x0D,
                 CHR 0x1C, CHR 0x1D, CHR 0x1E, CHR 0x1F, CHR 0x85, CHR 0xA0]"

definition is_space :: "char \<Rightarrow> bool" where
  "is_space c = (c \<in> set whitespace)"

definition digit_chars :: "char list" where
  "digit_chars = ''0123456789''"

definition is_digit :: "char \<Rightarrow> bool" where
  "is_digit c = (c \<in> set digit_chars)"

definition digit_val :: "char \<Rightarrow> int" where
  "digit_val c = int (of_char c) - 48"

text \<open>\<^verbatim>\<open>s.split()\<close>: the maximal runs of non-whitespace characters, in order.\<close>

fun split_from :: "string \<Rightarrow> string \<Rightarrow> string list" where
  "split_from cur [] = (if cur = [] then [] else [cur])"
| "split_from cur (c # cs) =
     (if is_space c then (if cur = [] then split_from [] cs else cur # split_from [] cs)
      else split_from (cur @ [c]) cs)"

definition str_split :: "string \<Rightarrow> string list" where
  "str_split s = split_from [] s"

definition str_strip :: "string \<Rightarrow> string" where
  "str_strip s = rev (dropWhile is_space (rev (dropWhile is_space s)))"

text \<open>
  \<^verbatim>\<open>int(s)\<close> in base ten: surrounding whitespace is stripped, one sign is allowed, and
  single underscores may separate digits. The interpreter refuses a literal of more
  digits than \<^verbatim>\<open>sys.int_max_str_digits\<close>, 4300 unless the site changes it; leading zeros
  count, underscores do not. \<open>None\<close> is \<^verbatim>\<open>ValueError\<close>, whatever the reason.
\<close>

definition int_max_str_digits :: nat where
  "int_max_str_digits = 4300"

fun int_digits :: "int \<Rightarrow> bool \<Rightarrow> string \<Rightarrow> int option" where
  "int_digits acc prev [] = (if prev then Some acc else None)"
| "int_digits acc prev (c # cs) =
     (if is_digit c then int_digits (10 * acc + digit_val c) True cs
      else if c = CHR ''_'' \<and> prev then int_digits acc False cs
      else None)"

definition py_int :: "string \<Rightarrow> int option" where
  "py_int s =
     (case str_strip s of
        [] \<Rightarrow> None
      | c # cs \<Rightarrow>
          if int_max_str_digits < length (filter is_digit (c # cs)) then None
          else if c = CHR ''+'' then int_digits 0 False cs
          else if c = CHR ''-'' then map_option uminus (int_digits 0 False cs)
          else int_digits 0 False (c # cs))"

section \<open>\<^verbatim>\<open>datetime\<close> and \<^verbatim>\<open>timedelta\<close>\<close>

text \<open>
  The proleptic Gregorian calendar of Python's \<^verbatim>\<open>datetime\<close> module: years 1 to 9999,
  ordinal 1 is 0001-01-01. Microseconds are always zero here and are left out.
\<close>

definition is_leap :: "int \<Rightarrow> bool" where
  "is_leap y = (y mod 4 = 0 \<and> (y mod 100 \<noteq> 0 \<or> y mod 400 = 0))"

definition days_in_month :: "int \<Rightarrow> int \<Rightarrow> int" where
  "days_in_month y m =
     (if m = 2 then (if is_leap y then 29 else 28)
      else if m = 4 \<or> m = 6 \<or> m = 9 \<or> m = 11 then 30 else 31)"

definition days_before_month :: "int \<Rightarrow> int \<Rightarrow> int" where
  "days_before_month y m = sum_list (map (days_in_month y) [1..m - 1])"

definition days_before_year :: "int \<Rightarrow> int" where
  "days_before_year y = (y - 1) * 365 + (y - 1) div 4 - (y - 1) div 100 + (y - 1) div 400"

definition ymd2ord :: "int \<Rightarrow> int \<Rightarrow> int \<Rightarrow> int" where
  "ymd2ord y m d = days_before_year y + days_before_month y m + d"

definition MAXORDINAL :: int where
  "MAXORDINAL = 3652059"

definition ord2ymd :: "int \<Rightarrow> int \<times> int \<times> int" where
  "ord2ymd ordinal =
     (let n = ordinal - 1;
          n400 = n div 146097; r400 = n mod 146097;
          n100 = r400 div 36524; r100 = r400 mod 36524;
          n4 = r100 div 1461; r4 = r100 mod 1461;
          n1 = r4 div 365; r1 = r4 mod 365;
          y = n400 * 400 + 1 + n100 * 100 + n4 * 4 + n1
      in if n1 = 4 \<or> n100 = 4 then (y - 1, 12, 31)
         else
           let m = (r1 + 50) div 32;
               preceding = days_before_month y m
           in if preceding > r1
              then (y, m - 1, r1 - (preceding - days_in_month y (m - 1)) + 1)
              else (y, m, r1 - preceding + 1))"

text \<open>The constructor \<^verbatim>\<open>datetime(y, m, d, H, M, S)\<close>; \<open>None\<close> is its \<^verbatim>\<open>ValueError\<close>.\<close>

definition datetime_new :: "int \<Rightarrow> int \<Rightarrow> int \<Rightarrow> int \<Rightarrow> int \<Rightarrow> int \<Rightarrow> datetime option" where
  "datetime_new y m d H M S =
     (if 1 \<le> y \<and> y \<le> 9999 \<and> 1 \<le> m \<and> m \<le> 12 \<and> 1 \<le> d \<and> d \<le> days_in_month y m
         \<and> 0 \<le> H \<and> H \<le> 23 \<and> 0 \<le> M \<and> M \<le> 59 \<and> 0 \<le> S \<and> S \<le> 59
      then Some \<lparr>year = y, month = m, day = d, hour = H, minute = M, second = S\<rparr>
      else None)"

text \<open>
  \<^verbatim>\<open>timedelta(**tdargs)\<close> with integer arguments: the span is normalised to days and
  seconds of the day, and a span of more than 999999999 days is an \<^verbatim>\<open>OverflowError\<close>.
\<close>

definition kwarg :: "(string \<rightharpoonup> int) \<Rightarrow> string \<Rightarrow> int" where
  "kwarg tdargs k = (case tdargs k of None \<Rightarrow> 0 | Some v \<Rightarrow> v)"

definition total_seconds :: "(string \<rightharpoonup> int) \<Rightarrow> int" where
  "total_seconds tdargs =
     kwarg tdargs ''weeks'' * 604800 + kwarg tdargs ''days'' * 86400
     + kwarg tdargs ''hours'' * 3600 + kwarg tdargs ''minutes'' * 60
     + kwarg tdargs ''seconds''"

definition py_timedelta :: "(string \<rightharpoonup> int) \<Rightarrow> error + timedelta" where
  "py_timedelta tdargs =
     (let d = total_seconds tdargs div 86400; s = total_seconds tdargs mod 86400
      in if \<bar>d\<bar> > 999999999 then Inl OverflowError
         else Inr \<lparr>days = d, seconds = s\<rparr>)"

text \<open>\<^verbatim>\<open>dt + delta\<close>: \<^verbatim>\<open>OverflowError\<close> when the result leaves the years 1 to 9999.\<close>

definition dt_add :: "datetime \<Rightarrow> timedelta \<Rightarrow> error + datetime" where
  "dt_add dt delta =
     (let secs = hour dt * 3600 + minute dt * 60 + second dt + seconds delta;
          ordinal = ymd2ord (year dt) (month dt) (day dt) + days delta + secs div 86400;
          rem = secs mod 86400
      in if 0 < ordinal \<and> ordinal \<le> MAXORDINAL
         then (case ord2ymd ordinal of
                 (y, m, d) \<Rightarrow>
                   Inr \<lparr>year = y, month = m, day = d, hour = rem div 3600,
                        minute = rem mod 3600 div 60, second = rem mod 60\<rparr>)
         else Inl OverflowError)"

text \<open>Python compares two \<^verbatim>\<open>datetime\<close> values field by field, most significant first.\<close>

definition dt_tuple :: "datetime \<Rightarrow> int \<times> int \<times> int \<times> int \<times> int \<times> int" where
  "dt_tuple dt = (year dt, month dt, day dt, hour dt, minute dt, second dt)"

text \<open>\<^verbatim>\<open>str(v)\<close>, as \<^verbatim>\<open>'%s' % v\<close> formats a value.\<close>

definition digit_char :: "int \<Rightarrow> char" where
  "digit_char n = char_of (48 + n mod 10)"

definition pad2 :: "int \<Rightarrow> string" where
  "pad2 n = [digit_char (n div 10), digit_char n]"

definition pad4 :: "int \<Rightarrow> string" where
  "pad4 n = pad2 (n div 100) @ pad2 (n mod 100)"

definition py_str :: "pyval \<Rightarrow> string" where
  "py_str v =
     (case v of
        PNone \<Rightarrow> ''None''
      | Str s \<Rightarrow> s
      | DateTime dt \<Rightarrow>
          pad4 (year dt) @ ''-'' @ pad2 (month dt) @ ''-'' @ pad2 (day dt) @ '' ''
          @ pad2 (hour dt) @ '':'' @ pad2 (minute dt) @ '':'' @ pad2 (second dt))"

section \<open>\<^verbatim>\<open>datetime.strptime(s, '%Y-%m-%d %H:%M')\<close>\<close>

text \<open>
  \<^verbatim>\<open>strptime\<close> turns the format into a regular expression, one named group per
  directive, and a blank of the format into \<^verbatim>\<open>\s+\<close>:
  \<^verbatim>\<open>(?P<Y>\d\d\d\d)-(?P<m>1[0-2]|0[1-9]|[1-9])-(?P<d>3[0-1]|[1-2]\d|0[1-9]|[1-9]| [1-9])\s+(?P<H>2[0-3]|[0-1]\d|\d):(?P<M>[0-5]\d|\d)\<close>
  It matches the expression at the start of the string with the backtracking matcher,
  refuses a match that does not end at the end of the string, converts the groups with
  \<^verbatim>\<open>int\<close> and builds the \<^verbatim>\<open>datetime\<close>.

  A matcher maps the input to the list of its matches (text, rest of the input) in the
  order the backtracking matcher tries them; the match \<^verbatim>\<open>re.match\<close> returns is the first
  of the whole expression.
\<close>

type_synonym re = "string \<Rightarrow> (string \<times> string) list"

definition re_set :: "char list \<Rightarrow> re" where
  "re_set cs s = (case s of [] \<Rightarrow> [] | x # xs \<Rightarrow> if x \<in> set cs then [([x], xs)] else [])"

definition re_chr :: "char \<Rightarrow> re" where
  "re_chr c = re_set [c]"

definition re_seq :: "re \<Rightarrow> re \<Rightarrow> re" where
  "re_seq p q s = [(a @ b, r'). (a, r) \<leftarrow> p s, (b, r') \<leftarrow> q r]"

definition re_alt :: "re \<Rightarrow> re \<Rightarrow> re" where
  "re_alt p q s = p s @ q s"

fun re_star :: "char list \<Rightarrow> re" where
  "re_star cs [] = [([], [])]"
| "re_star cs (x # xs) =
     (if x \<in> set cs then [(x # a, r). (a, r) \<leftarrow> re_star cs xs] @ [([], x # xs)]
      else [([], x # xs)])"

definition re_plus :: "char list \<Rightarrow> re" where
  "re_plus cs = re_seq (re_set cs) (re_star cs)"

definition re_digit :: re where
  "re_digit = re_set digit_chars"

definition re_Y :: re where
  "re_Y = re_seq re_digit (re_seq re_digit (re_seq re_digit re_digit))"

definition re_m :: re where
  "re_m = re_alt (re_seq (re_chr CHR ''1'') (re_set ''012''))
         (re_alt (re_seq (re_chr CHR ''0'') (re_set ''123456789''))
                 (re_set ''123456789''))"

definition re_d :: re where
  "re_d = re_alt (re_seq (re_chr CHR ''3'') (re_set ''01''))
         (re_alt (re_seq (re_set ''12'') re_digit)
         (re_alt (re_seq (re_chr CHR ''0'') (re_set ''123456789''))
         (re_alt (re_set ''123456789'')
                 (re_seq (re_chr CHR '' '') (re_set ''123456789'')))))"

definition re_H :: re where
  "re_H = re_alt (re_seq (re_chr CHR ''2'') (re_set ''0123''))
         (re_alt (re_seq (re_set ''01'') re_digit) re_digit)"

definition re_M :: re where
  "re_M = re_alt (re_seq (re_set ''012345'') re_digit) re_digit"

definition strptime_match :: "string \<Rightarrow> (string \<times> string \<times> string \<times> string \<times> string \<times> string) list" where
  "strptime_match s =
     [(Y, m, d, H, M, r9).
        (Y, r1) \<leftarrow> re_Y s, (x1, r2) \<leftarrow> re_chr CHR ''-'' r1,
        (m, r3) \<leftarrow> re_m r2, (x2, r4) \<leftarrow> re_chr CHR ''-'' r3,
        (d, r5) \<leftarrow> re_d r4, (x3, r6) \<leftarrow> re_plus whitespace r5,
        (H, r7) \<leftarrow> re_H r6, (x4, r8) \<leftarrow> re_chr CHR '':'' r7,
        (M, r9) \<leftarrow> re_M r8]"

definition strptime :: "string \<Rightarrow> error + datetime" where
  "strptime s =
     (case strptime_match s of
        [] \<Rightarrow> Inl StrptimeError
      | (Y, m, d, H, M, r) # _ \<Rightarrow>
          if r \<noteq> [] then Inl StrptimeError
          else (case (py_int Y, py_int m, py_int d, py_int H, py_int M) of
                  (Some y, Some mo, Some da, Some h, Some mi) \<Rightarrow>
                    (case datetime_new y mo da h mi 0 of
                       None \<Rightarrow> Inl StrptimeError
                     | Some dt \<Rightarrow> Inr dt)
                | _ \<Rightarrow> Inl StrptimeError))"

section \<open>The parsers of the plugin\<close>

text \<open>
  \<^verbatim>\<open>parse_tstamp(ev, field_name)\<close>: any exception of the lookup or of \<^verbatim>\<open>strptime\<close> is
  logged with the event's title and raised again; the log line reads \<^verbatim>\<open>ev['title']\<close>,
  so a mapping without a title raises \<^verbatim>\<open>KeyError\<close> instead.
\<close>

definition parse_tstamp :: "(string \<rightharpoonup> pyval) \<Rightarrow> string \<Rightarrow> error + datetime" where
  "parse_tstamp ev field_name =
     (case (case ev field_name of
              None \<Rightarrow> Inl (KeyError field_name)
            | Some (Str s) \<Rightarrow> strptime s
            | Some _ \<Rightarrow> Inl TypeError) of
        Inr dt \<Rightarrow> Inr dt
      | Inl e \<Rightarrow> (case ev ''title'' of None \<Rightarrow> Inl (KeyError ''title'') | Some t \<Rightarrow> Inl e))"

definition TIME_MULTIPLIERS :: "(char \<times> string) list" where
  "TIME_MULTIPLIERS =
     [(CHR ''w'', ''weeks''), (CHR ''d'', ''days''), (CHR ''h'', ''hours''),
      (CHR ''m'', ''minutes''), (CHR ''s'', ''seconds'')]"

definition quoted :: "string \<Rightarrow> string" where
  "quoted s = [CHR 0x27] @ s @ [CHR 0x27]"

text \<open>
  The loop of \<^verbatim>\<open>parse_timedelta\<close> over the chunks, with the dictionary \<^verbatim>\<open>tdargs\<close> as
  accumulator. The multiplier is looked up before the number is converted; each handler
  logs with \<^verbatim>\<open>ev['title']\<close> before it raises.
\<close>

fun parse_chunks :: "(string \<rightharpoonup> pyval) \<Rightarrow> string list \<Rightarrow> (string \<rightharpoonup> int) \<Rightarrow> error + (string \<rightharpoonup> int)" where
  "parse_chunks ev [] tdargs = Inr tdargs"
| "parse_chunks ev (c # cs) tdargs =
     (if c = [] then Inl IndexError
      else case map_of TIME_MULTIPLIERS (last c) of
        None \<Rightarrow>
          (case ev ''title'' of
             None \<Rightarrow> Inl (KeyError ''title'')
           | Some t \<Rightarrow> Inl (RuntimeError (''Unknown time multiplier '' @ quoted c)))
      | Some m \<Rightarrow>
          (case py_int (butlast c) of
             None \<Rightarrow>
               (case ev ''title'' of
                  None \<Rightarrow> Inl (KeyError ''title'')
                | Some t \<Rightarrow> Inl (ValueError (''Unable to parse '' @ quoted c)))
           | Some val \<Rightarrow> parse_chunks ev cs (tdargs(m \<mapsto> val))))"

definition parse_timedelta :: "(string \<rightharpoonup> pyval) \<Rightarrow> error + timedelta" where
  "parse_timedelta ev =
     (case ev ''event-duration'' of
        None \<Rightarrow> Inl (KeyError ''event-duration'')
      | Some (Str s) \<Rightarrow>
          (case parse_chunks ev (str_split s) Map.empty of
             Inl e \<Rightarrow> Inl e
           | Inr tdargs \<Rightarrow> py_timedelta tdargs)
      | Some _ \<Rightarrow> Inl (AttributeError ''split''))"

section \<open>The resolver \<^verbatim>\<open>parse_article\<close>\<close>

text \<open>
  A content item of the host: its identity (Python compares content objects by
  identity), its metadata mapping, and the attributes this plugin attaches with
  \<^verbatim>\<open>setattr\<close>.
\<close>

record content =
  ident :: nat
  c_metadata :: "string \<rightharpoonup> pyval"
  attrs :: "string \<rightharpoonup> datetime"

definition set_event_attrs :: "content \<Rightarrow> datetime \<Rightarrow> datetime \<Rightarrow> content" where
  "set_event_attrs c dtstart dtend =
     c\<lparr>attrs := (attrs c)(''event-start'' \<mapsto> dtstart, ''event-end'' \<mapsto> dtend,
                           ''event_start'' \<mapsto> dtstart, ''event_end'' \<mapsto> dtend)\<rparr>"

definition missing_end_msg :: "pyval \<Rightarrow> string" where
  "missing_end_msg title =
     ''Either '' @ quoted ''event-end'' @ '' or '' @ quoted ''event-duration'' @ '' must be''
     @ '' speciefied in the event named '' @ quoted (py_str title)"

definition parse_article :: "content \<Rightarrow> error + content" where
  "parse_article c =
     (let md = c_metadata c in
      if md ''event-start'' = None then Inr c
      else case parse_tstamp md ''event-start'' of
        Inl e \<Rightarrow> Inl e
      | Inr dtstart \<Rightarrow>
          (case (if md ''event-end'' \<noteq> None then parse_tstamp md ''event-end''
                 else if md ''event-duration'' \<noteq> None then
                   (case parse_timedelta md of
                      Inl e \<Rightarrow> Inl e
                    | Inr dtdelta \<Rightarrow> dt_add dtstart dtdelta)
                 else (case md ''title'' of
                         None \<Rightarrow> Inl (KeyError ''title'')
                       | Some t \<Rightarrow> Inl (ValueError (missing_end_msg t)))) of
             Inl e \<Rightarrow> Inl e
           | Inr dtend \<Rightarrow> Inr (set_event_attrs c dtstart dtend)))"

section \<open>The event store\<close>

text \<open>
  \<^verbatim>\<open>Event = namedtuple("Event", "dtstart dtend metadata article")\<close>. The field \<open>article\<close>
  is a reference to the content item, modelled by the item's identity; two events are
  equal when all four fields are.
\<close>

record event =
  dtstart :: datetime
  dtend :: datetime
  metadata :: "string \<rightharpoonup> pyval"
  article :: nat

text \<open>An \<^verbatim>\<open>icalendar.Event\<close> component and the \<^verbatim>\<open>icalendar.Calendar\<close> that holds them.\<close>

record vevent =
  summary :: string
  v_dtstart :: datetime
  v_dtend :: datetime
  v_dtstamp :: datetime
  uid :: string
  v_class :: string
  description :: string
  location :: "pyval option"

record icalendar =
  prodid :: string
  version :: string
  cal_method :: string
  components :: "vevent list"

text \<open>What \<^verbatim>\<open>generate_events_list\<close> stores under \<^verbatim>\<open>context['events_list']\<close>.\<close>

datatype published = EventList "event list" | EventDict "(pyval \<times> event list) list"

text \<open>
  The state the hooks work on: the module's globals \<open>events\<close> and \<open>localized_events\<close>
  (a \<^verbatim>\<open>defaultdict(list)\<close>, kept in insertion order), the directories and files of the file
  system, and the generator's context entry.
\<close>

record world =
  events :: "event list"
  localized_events :: "(pyval \<times> event list) list"
  fs_dirs :: "string list"
  fs_files :: "string \<rightharpoonup> icalendar"
  events_list :: "published option"

text \<open>
  The settings of the host. Pelican's defaults provide every key but \<^verbatim>\<open>PLUGIN_EVENTS\<close>,
  which the site's configuration may leave out, as it may leave out \<^verbatim>\<open>ics_fname\<close> in it.
\<close>

record settings =
  PLUGIN_EVENTS :: "(string \<rightharpoonup> pyval) option"
  OUTPUT_PATH :: string
  TIMEZONE :: string
  SITEURL :: string
  DEFAULT_LANG :: string
  SITENAME :: string
  PLUGINS :: "string list"

record generator =
  g_settings :: settings
  generated_content :: "content list"

text \<open>
  The collaborators outside the plugin, as parameters: \<^verbatim>\<open>pytz\<close> (whether a timezone name
  is known; localising a naive time and converting it to UTC), \<^verbatim>\<open>Markup.striptags\<close>, the
  content item's \<^verbatim>\<open>get_summary\<close>, \<^verbatim>\<open>os.path.join\<close>, and whether \<^verbatim>\<open>open(path, 'wb')\<close>
  succeeds given the directories that exist.
\<close>

record host =
  tz_known :: "string \<Rightarrow> bool"
  to_utc :: "string \<Rightarrow> datetime \<Rightarrow> error + datetime"
  striptags :: "string \<Rightarrow> string"
  get_summary :: "nat \<Rightarrow> string \<Rightarrow> string"
  path_join :: "string \<Rightarrow> string \<Rightarrow> string"
  can_open :: "string list \<Rightarrow> string \<Rightarrow> bool"

text \<open>
  A hook returns the state it leaves and the exception it raised, if any: what it did
  to the globals before raising stays done.
\<close>

definition then_do :: "world \<times> error option \<Rightarrow> (world \<Rightarrow> world \<times> error option) \<Rightarrow> world \<times> error option" where
  "then_do r f = (case r of (w, None) \<Rightarrow> f w | (w, Some e) \<Rightarrow> (w, Some e))"

text \<open>\<^verbatim>\<open>d[k].append(v)\<close> and \<^verbatim>\<open>d[k]\<close> on a \<^verbatim>\<open>defaultdict(list)\<close>: a missing key is inserted.\<close>

fun dd_append :: "'k \<Rightarrow> 'v \<Rightarrow> ('k \<times> 'v list) list \<Rightarrow> ('k \<times> 'v list) list" where
  "dd_append k v [] = [(k, [v])]"
| "dd_append k v ((k', vs) # d) =
     (if k' = k then (k', vs @ [v]) # d else (k', vs) # dd_append k v d)"

definition dd_get :: "'k \<Rightarrow> ('k \<times> 'v list) list \<Rightarrow> 'v list \<times> ('k \<times> 'v list) list" where
  "dd_get k d = (case map_of d k of Some vs \<Rightarrow> (vs, d) | None \<Rightarrow> ([], d @ [(k, [])]))"

text \<open>\<^verbatim>\<open>initialize_events\<close>: \<^verbatim>\<open>del events[:]\<close> and \<^verbatim>\<open>localized_events.clear()\<close>.\<close>

definition initialize_events :: "world \<Rightarrow> world" where
  "initialize_events w = w\<lparr>events := [], localized_events := []\<rparr>"

text \<open>
  The loop of \<^verbatim>\<open>generate_events\<close> over the content items. \<^verbatim>\<open>hasattr\<close> tests
  \<^verbatim>\<open>event_start\<close> only; reading \<^verbatim>\<open>content.event_end\<close> raises \<^verbatim>\<open>AttributeError\<close> when it is
  missing.
\<close>

definition mk_event :: "content \<Rightarrow> datetime \<Rightarrow> datetime \<Rightarrow> event" where
  "mk_event c s t = \<lparr>dtstart = s, dtend = t, metadata = c_metadata c, article = ident c\<rparr>"

fun collect_events :: "content list \<Rightarrow> world \<Rightarrow> world \<times> error option" where
  "collect_events [] w = (w, None)"
| "collect_events (c # cs) w =
     (case attrs c ''event_start'' of
        None \<Rightarrow> collect_events cs w
      | Some s \<Rightarrow>
          (case attrs c ''event_end'' of
             None \<Rightarrow> (w, Some (AttributeError ''event_end''))
           | Some t \<Rightarrow>
               collect_events cs
                 (if mk_event c s t \<in> set (events w) then w
                  else w\<lparr>events := events w @ [mk_event c s t]\<rparr>)))"

text \<open>\<^verbatim>\<open>generate_localized_events\<close>; the debug line reads the title of an event without \<^verbatim>\<open>lang\<close>.\<close>

fun localize_loop :: "event list \<Rightarrow> world \<Rightarrow> world \<times> error option" where
  "localize_loop [] w = (w, None)"
| "localize_loop (e # es) w =
     (case metadata e ''lang'' of
        Some l \<Rightarrow> localize_loop es (w\<lparr>localized_events := dd_append l e (localized_events w)\<rparr>)
      | None \<Rightarrow>
          (case metadata e ''title'' of
             None \<Rightarrow> (w, Some (KeyError ''title''))
           | Some t \<Rightarrow> localize_loop es w))"

definition generate_localized_events :: "generator \<Rightarrow> world \<Rightarrow> world \<times> error option" where
  "generate_localized_events g w =
     (if ''i18n_subsites'' \<in> set (PLUGINS (g_settings g)) then
        let out = OUTPUT_PATH (g_settings g);
            w1 = (if out \<in> set (fs_dirs w) then w else w\<lparr>fs_dirs := fs_dirs w @ [out]\<rparr>)
        in localize_loop (events w1) w1
      else (w, None))"

section \<open>The calendar exporter\<close>

definition truthy :: "pyval \<Rightarrow> bool" where
  "truthy v = (case v of PNone \<Rightarrow> False | Str s \<Rightarrow> s \<noteq> [] | DateTime dt \<Rightarrow> True)"

definition bind_err :: "error + 'a \<Rightarrow> ('a \<Rightarrow> error + 'b) \<Rightarrow> error + 'b" where
  "bind_err r f = (case r of Inl e \<Rightarrow> Inl e | Inr x \<Rightarrow> f x)"

text \<open>The body of the loop over \<^verbatim>\<open>curr_events\<close>: one component, or the first exception.\<close>

definition ical_event :: "host \<Rightarrow> settings \<Rightarrow> event \<Rightarrow> error + vevent" where
  "ical_event h st e =
     bind_err (to_utc h (TIMEZONE st) (dtstart e)) (\<lambda>dtstart_utc.
     bind_err (to_utc h (TIMEZONE st) (dtend e)) (\<lambda>dtend_utc.
     bind_err (case metadata e ''date'' of
                 None \<Rightarrow> Inl (KeyError ''date'')
               | Some (DateTime d) \<Rightarrow> to_utc h (TIMEZONE st) d
               | Some _ \<Rightarrow> Inl (AttributeError ''tzinfo'')) (\<lambda>dtstamp_utc.
     bind_err (case metadata e ''title'' of
                 None \<Rightarrow> Inl (KeyError ''title'')
               | Some t \<Rightarrow> Inr (striptags h (py_str t))) (\<lambda>title.
     bind_err (case metadata e ''slug'' of
                 None \<Rightarrow> Inl (KeyError ''slug'')
               | Some (Str slug) \<Rightarrow> Inr (slug @ ''@'' @ SITENAME st)
               | Some _ \<Rightarrow> Inl TypeError) (\<lambda>u.
     Inr \<lparr>summary = title, v_dtstart = dtstart_utc, v_dtend = dtend_utc,
          v_dtstamp = dtstamp_utc, uid = u, v_class = ''PUBLIC'',
          description = striptags h (get_summary h (article e) (SITEURL st)),
          location = (case metadata e ''event-location'' of
                        Some l \<Rightarrow> Some l
                      | None \<Rightarrow> metadata e ''location'')\<rparr>)))))"

fun ical_events :: "host \<Rightarrow> settings \<Rightarrow> event list \<Rightarrow> error + vevent list" where
  "ical_events h st [] = Inr []"
| "ical_events h st (e # es) =
     bind_err (ical_event h st e) (\<lambda>ie.
     bind_err (ical_events h st es) (\<lambda>ies. Inr (ie # ies)))"

definition new_calendar :: "vevent list \<Rightarrow> icalendar" where
  "new_calendar ies =
     \<lparr>prodid = ''-//pelican/events//mxm.dk//EN'', version = ''2.0'', cal_method = ''PUBLISH'',
      components = ies\<rparr>"

text \<open>
  \<^verbatim>\<open>generate_ical_file\<close>. The two subscripts of the first line raise \<^verbatim>\<open>KeyError\<close> on a
  missing key; \<^verbatim>\<open>localized_events[DEFAULT_LANG]\<close> is a \<^verbatim>\<open>defaultdict\<close> lookup.
\<close>

definition generate_ical_file :: "host \<Rightarrow> generator \<Rightarrow> world \<Rightarrow> world \<times> error option" where
  "generate_ical_file h g w =
     (let st = g_settings g in
      case PLUGIN_EVENTS st of
        None \<Rightarrow> (w, Some (KeyError ''PLUGIN_EVENTS''))
      | Some pe \<Rightarrow>
          (case pe ''ics_fname'' of
             None \<Rightarrow> (w, Some (KeyError ''ics_fname''))
           | Some v \<Rightarrow>
               if \<not> truthy v then (w, None)
               else (case v of
                  Str fname \<Rightarrow>
                    let ics_fname = path_join h (OUTPUT_PATH st) fname in
                    if \<not> tz_known h (TIMEZONE st)
                    then (w, Some (UnknownTimeZoneError (TIMEZONE st)))
                    else
                      (case (if localized_events w = [] then (events w, localized_events w)
                             else dd_get (Str (DEFAULT_LANG st)) (localized_events w)) of
                         (curr_events, loc) \<Rightarrow>
                           let w1 = w\<lparr>localized_events := loc\<rparr> in
                           (case ical_events h st curr_events of
                              Inl e \<Rightarrow> (w1, Some e)
                            | Inr ies \<Rightarrow>
                                if can_open h (fs_dirs w1) ics_fname
                                then (w1\<lparr>fs_files := (fs_files w1)(ics_fname \<mapsto> new_calendar ies)\<rparr>, None)
                                else (w1, Some (IOError ics_fname))))
                | _ \<Rightarrow> (w, Some TypeError))))"

section \<open>The list publisher\<close>

text \<open>
  \<^verbatim>\<open>sorted(xs, reverse=True, key=lambda ev: (ev.dtstart, ev.dtend))\<close>: Python's sort is
  stable, and with \<^verbatim>\<open>reverse=True\<close> it reverses the list, sorts it and reverses the
  result, so that equal keys keep their order.
\<close>

definition event_key :: "event \<Rightarrow> (int \<times> int \<times> int \<times> int \<times> int \<times> int) \<times> (int \<times> int \<times> int \<times> int \<times> int \<times> int)" where
  "event_key ev = (dt_tuple (dtstart ev), dt_tuple (dtend ev))"

definition sorted_reverse :: "event list \<Rightarrow> event list" where
  "sorted_reverse xs = rev (sort_key event_key (rev xs))"

definition generate_events_list :: "world \<Rightarrow> world" where
  "generate_events_list w =
     w\<lparr>events_list :=
         Some (if localized_events w = [] then EventList (sorted_reverse (events w))
               else EventDict (map (\<lambda>(k, v). (k, sorted_reverse v)) (localized_events w)))\<rparr>"

text \<open>The hook \<^verbatim>\<open>generate_events\<close>: collect, partition, export, publish.\<close>

definition generate_events :: "host \<Rightarrow> generator \<Rightarrow> world \<Rightarrow> world \<times> error option" where
  "generate_events h g w =
     then_do (collect_events (generated_content g) w) (\<lambda>w1.
     then_do (generate_localized_events g w1) (\<lambda>w2.
     then_do (generate_ical_file h g w2) (\<lambda>w3.
     (generate_events_list w3, None))))"

section \<open>Notions the properties are stated with\<close>

text \<open>
  The states the hooks can produce: from a state with an empty store, through any
  sequence of \<open>initialize_events\<close>, the collecting loop, the partitioning, the export
  and the publishing, whether or not a step raises.
\<close>

inductive reachable :: "world \<Rightarrow> bool" where
  start: "events w = [] \<Longrightarrow> localized_events w = [] \<Longrightarrow> reachable w"
| reset: "reachable w \<Longrightarrow> reachable (initialize_events w)"
| collect: "reachable w \<Longrightarrow> reachable (fst (collect_events cs w))"
| localize: "reachable w \<Longrightarrow> reachable (fst (generate_localized_events g w))"
| export: "reachable w \<Longrightarrow> reachable (fst (generate_ical_file h g w))"
| publish: "reachable w \<Longrightarrow> reachable (generate_events_list w)"

text \<open>
  What holds of the store in every such state: the event list has no duplicates, and an
  event of the partition of language \<open>k\<close> is in the event list and carries the tag \<open>k\<close>.
\<close>

definition store_inv :: "world \<Rightarrow> bool" where
  "store_inv w =
     (distinct (events w) \<and>
      (\<forall>k es e. (k, es) \<in> set (localized_events w) \<longrightarrow> e \<in> set es \<longrightarrow>
         e \<in> set (events w) \<and> metadata e ''lang'' = Some k))"

text \<open>\<open>e\<close> is the event of the content item \<open>c\<close>, which carries a start and an end.\<close>

definition both_resolved :: "content \<Rightarrow> event \<Rightarrow> bool" where
  "both_resolved c e =
     (\<exists>s t. attrs c ''event_start'' = Some s \<and> attrs c ''event_end'' = Some t
            \<and> e = mk_event c s t)"

text \<open>Non-increasing in (start, end), start compared first.\<close>

definition descending :: "event list \<Rightarrow> bool" where
  "descending xs =
     sorted_wrt (\<lambda>a b. dt_tuple (dtstart b) < dt_tuple (dtstart a)
                      \<or> (dt_tuple (dtstart b) = dt_tuple (dtstart a)
                          \<and> dt_tuple (dtend b) \<le> dt_tuple (dtend a))) xs"

text \<open>
  The exporter goes on to build a calendar: \<^verbatim>\<open>ics_fname\<close> is a non-empty string and the
  timezone is known. Then \<open>curr_events\<close> is the list its loop runs over and
  \<open>after_lookup\<close> the state the \<^verbatim>\<open>defaultdict\<close> lookup leaves.
\<close>

definition configured :: "host \<Rightarrow> generator \<Rightarrow> string \<Rightarrow> bool" where
  "configured h g fname =
     (\<exists>pe. PLUGIN_EVENTS (g_settings g) = Some pe \<and> pe ''ics_fname'' = Some (Str fname)
           \<and> fname \<noteq> [] \<and> tz_known h (TIMEZONE (g_settings g)))"

definition curr_events :: "generator \<Rightarrow> world \<Rightarrow> event list" where
  "curr_events g w =
     (if localized_events w = [] then events w
      else fst (dd_get (Str (DEFAULT_LANG (g_settings g))) (localized_events w)))"

definition after_lookup :: "generator \<Rightarrow> world \<Rightarrow> world" where
  "after_lookup g w =
     (if localized_events w = [] then w
      else w\<lparr>localized_events := snd (dd_get (Str (DEFAULT_LANG (g_settings g))) (localized_events w))\<rparr>)"

text \<open>
  The choice in plain terms: the full list when there is no partition, else the
  partition of the default language (empty when there is none for it).
\<close>

definition selected_events :: "generator \<Rightarrow> world \<Rightarrow> event list" where
  "selected_events g w =
     (if localized_events w = [] then events w
      else (case map_of (localized_events w) (Str (DEFAULT_LANG (g_settings g))) of
              None \<Rightarrow> []
            | Some es \<Rightarrow> es))"

definition ics_path :: "host \<Rightarrow> generator \<Rightarrow> string \<Rightarrow> string" where
  "ics_path h g fname = path_join h (OUTPUT_PATH (g_settings g)) fname"

text \<open>The number a string of decimal digits denotes.\<close>

definition digits_value :: "string \<Rightarrow> int" where
  "digits_value ds = foldl (\<lambda>a c. 10 * a + digit_val c) 0 ds"





text \<open>
  A chunk of a duration string as the specification describes it: an integer literal
  (an optional sign and digits) followed by one unit letter. A chunk is short when its
  number has at most 4300 digits. The unit a letter stands for is written out from the
  specification (\<^verbatim>\<open>w\<close> weeks, \<^verbatim>\<open>d\<close> days, \<^verbatim>\<open>h\<close> hours, \<^verbatim>\<open>m\<close> minutes, \<^verbatim>\<open>s\<close> seconds), not
  read from the table of the plugin.
\<close>

definition int_literal :: "string \<Rightarrow> bool" where
  "int_literal t =
     (case t of
        [] \<Rightarrow> False
      | c # cs \<Rightarrow>
          if c = CHR ''+'' \<or> c = CHR ''-'' then cs \<noteq> [] \<and> list_all is_digit cs
          else list_all is_digit (c # cs))"

definition literal_value :: "string \<Rightarrow> int" where
  "literal_value t =
     (case t of
        [] \<Rightarrow> 0
      | c # cs \<Rightarrow>
          if c = CHR ''+'' then digits_value cs
          else if c = CHR ''-'' then - digits_value cs
          else digits_value (c # cs))"

definition valid_chunk :: "string \<Rightarrow> bool" where
  "valid_chunk c = (c \<noteq> [] \<and> last c \<in> set ''wdhms'' \<and> int_literal (butlast c))"

definition short_chunk :: "string \<Rightarrow> bool" where
  "short_chunk c = (length (filter is_digit c) \<le> 4300)"

definition chunk_unit :: "string \<Rightarrow> string" where
  "chunk_unit c =
     (if last c = CHR ''w'' then ''weeks''
      else if last c = CHR ''d'' then ''days''
      else if last c = CHR ''h'' then ''hours''
      else if last c = CHR ''m'' then ''minutes''
      else ''seconds'')"

definition chunk_count :: "string \<Rightarrow> int" where
  "chunk_count c = literal_value (butlast c)"

text \<open>
  The dictionary in which the last chunk of each unit gives the unit's count, and the
  length in seconds of the span these counts name (a unit not mentioned counts 0).
\<close>

definition last_wins :: "string list \<Rightarrow> string \<rightharpoonup> int" where
  "last_wins cs = map_of (rev (map (\<lambda>c. (chunk_unit c, chunk_count c)) cs))"

definition unit_count :: "string list \<Rightarrow> string \<Rightarrow> int" where
  "unit_count cs u = (case last_wins cs u of None \<Rightarrow> 0 | Some n \<Rightarrow> n)"

definition duration_seconds :: "string list \<Rightarrow> int" where
  "duration_seconds cs =
     604800 * unit_count cs ''weeks'' + 86400 * unit_count cs ''days''
     + 3600 * unit_count cs ''hours'' + 60 * unit_count cs ''minutes''
     + unit_count cs ''seconds''"

text \<open>
  The states of a pass after the collecting loop has left \<open>w1\<close>: that state, the state
  after the partitioning, the state after the export and the state after the
  publishing, each step starting from what the step before left, whether or not it
  raised.
\<close>

definition pass_states :: "host \<Rightarrow> generator \<Rightarrow> world \<Rightarrow> world list" where
  "pass_states h g w1 =
     (let w2 = fst (generate_localized_events g w1);
          w3 = fst (generate_ical_file h g w2)
      in [w1, w2, w3, generate_events_list w3])"

section \<open>Example inputs\<close>

text \<open>
  An event that starts on 2024-01-01 at 10:00 and lasts two hours, and a content item
  that gives a start and no way to compute an end.
\<close>

definition party_metadata :: "string \<rightharpoonup> pyval" where
  "party_metadata =
     [''event-start'' \<mapsto> Str ''2024-01-01 10:00'', ''event-duration'' \<mapsto> Str ''2h'',
      ''title'' \<mapsto> Str ''Party'']"

definition party :: content where
  "party = \<lparr>ident = 1, c_metadata = party_metadata, attrs = Map.empty\<rparr>"

definition party_start :: datetime where
  "party_start = \<lparr>year = 2024, month = 1, day = 1, hour = 10, minute = 0, second = 0\<rparr>"

definition party_end :: datetime where
  "party_end = \<lparr>year = 2024, month = 1, day = 1, hour = 12, minute = 0, second = 0\<rparr>"

definition endless :: content where
  "endless =
     \<lparr>ident = 2,
      c_metadata = [''event-start'' \<mapsto> Str ''2024-01-01 10:00'', ''title'' \<mapsto> Str ''Endless''],
      attrs = Map.empty\<rparr>"

text \<open>
  A host whose site timezone is UTC, and two talks, one tagged \<^verbatim>\<open>en\<close> and one \<^verbatim>\<open>de\<close>,
  already resolved; the states a pass over them goes through.
\<close>

definition plain_host :: host where
  "plain_host =
     \<lparr>tz_known = (\<lambda>tz. tz = ''UTC''), to_utc = (\<lambda>tz dt. Inr dt), striptags = (\<lambda>s. s),
      get_summary = (\<lambda>i url. ''''), path_join = (\<lambda>a b. a @ ''/'' @ b),
      can_open = (\<lambda>dirs p. True)\<rparr>"

definition site :: "string list \<Rightarrow> (string \<rightharpoonup> pyval) option \<Rightarrow> settings" where
  "site plugins pe =
     \<lparr>PLUGIN_EVENTS = pe, OUTPUT_PATH = ''output'', TIMEZONE = ''UTC'', SITEURL = '''',
      DEFAULT_LANG = ''en'', SITENAME = ''site'', PLUGINS = plugins\<rparr>"

definition with_ics :: "(string \<rightharpoonup> pyval) option" where
  "with_ics = Some [''ics_fname'' \<mapsto> Str ''events.ics'']"

definition talk_metadata :: "string \<Rightarrow> string \<Rightarrow> string \<rightharpoonup> pyval" where
  "talk_metadata lang slug =
     [''title'' \<mapsto> Str ''Talk'', ''slug'' \<mapsto> Str slug, ''lang'' \<mapsto> Str lang,
      ''date'' \<mapsto> DateTime party_start]"

definition talk_en :: content where
  "talk_en = set_event_attrs \<lparr>ident = 3, c_metadata = talk_metadata ''en'' ''talk'', attrs = Map.empty\<rparr>
               party_start party_end"

definition talk_de :: content where
  "talk_de = set_event_attrs \<lparr>ident = 4, c_metadata = talk_metadata ''de'' ''vortrag'', attrs = Map.empty\<rparr>
               party_end party_end"

definition event_en :: event where
  "event_en = mk_event talk_en party_start party_end"

definition event_de :: event where
  "event_de = mk_event talk_de party_end party_end"

definition empty_world :: world where
  "empty_world = \<lparr>events = [], localized_events = [], fs_dirs = [], fs_files = Map.empty,
                  events_list = None\<rparr>"

definition vevent_of :: "event \<Rightarrow> string \<Rightarrow> vevent" where
  "vevent_of e slug =
     \<lparr>summary = ''Talk'', v_dtstart = dtstart e, v_dtend = dtend e, v_dtstamp = party_start,
      uid = slug @ ''@site'', v_class = ''PUBLIC'', description = '''', location = None\<rparr>"

definition i18n_gen :: "content list \<Rightarrow> generator" where
  "i18n_gen cs = \<lparr>g_settings = site [''i18n_subsites''] with_ics, generated_content = cs\<rparr>"

definition plain_gen :: "(string \<rightharpoonup> pyval) option \<Rightarrow> content list \<Rightarrow> generator" where
  "plain_gen pe cs = \<lparr>g_settings = site [] pe, generated_content = cs\<rparr>"

definition collected :: world where
  "collected = empty_world\<lparr>events := [event_en, event_de]\<rparr>"

definition localized_de :: world where
  "localized_de = empty_world\<lparr>events := [event_de], fs_dirs := [''output''],
                    localized_events := [(Str ''de'', [event_de])]\<rparr>"

definition ics_is :: "pyval \<Rightarrow> (string \<rightharpoonup> pyval) option" where
  "ics_is v = Some [''ics_fname'' \<mapsto> v]"

definition localized_both :: world where
  "localized_both = empty_world\<lparr>events := [event_en, event_de], fs_dirs := [''output''],
                     localized_events := [(Str ''en'', [event_en]), (Str ''de'', [event_de])]\<rparr>"

definition exported_both :: world where
  "exported_both = localized_both\<lparr>fs_files := [''output/events.ics'' \<mapsto>
                      new_calendar [vevent_of event_en ''talk'']]\<rparr>"

definition duration_of :: "string \<Rightarrow> string \<rightharpoonup> pyval" where
  "duration_of s = [''event-duration'' \<mapsto> Str s]"





text \<open>
  Two more English talks, one from 12:00 to 12:00 and one from 10:00 to 10:00, and a
  state in which the English partition holds three talks in the order they were
  collected.
\<close>

definition talk_late :: content where
  "talk_late = set_event_attrs \<lparr>ident = 8, c_metadata = talk_metadata ''en'' ''late'', attrs = Map.empty\<rparr>
                 party_end party_end"

definition talk_short :: content where
  "talk_short = set_event_attrs \<lparr>ident = 9, c_metadata = talk_metadata ''en'' ''short'', attrs = Map.empty\<rparr>
                  party_start party_start"

definition event_late :: event where
  "event_late = mk_event talk_late party_end party_end"

definition event_short :: event where
  "event_short = mk_event talk_short party_start party_start"

definition localized_mixed :: world where
  "localized_mixed =
     empty_world\<lparr>events := [event_short, event_en, event_de, event_late],
                 localized_events := [(Str ''en'', [event_short, event_en, event_late]),
                                      (Str ''de'', [event_de])]\<rparr>"

section \<open>Characters, digits and \<^verbatim>\<open>int\<close>\<close>

lemma digit_not_space: "is_digit c \<Longrightarrow> \<not> is_space c"
  by (auto simp: is_digit_def is_space_def digit_chars_def whitespace_def)

lemma digit_not_sign: "is_digit c \<Longrightarrow> c \<noteq> CHR ''+'' \<and> c \<noteq> CHR ''-'' \<and> c \<noteq> CHR ''_''"
  by (auto simp: is_digit_def digit_chars_def)

lemma sign_not_digit: "\<not> is_digit CHR ''+''" "\<not> is_digit CHR ''-''"
  by (simp_all add: is_digit_def digit_chars_def)

lemma sign_not_space: "\<not> is_space CHR ''+''" "\<not> is_space CHR ''-''"
  by (simp_all add: is_space_def whitespace_def)

lemma str_strip_id:
  assumes "t \<noteq> []" "\<not> is_space (hd t)" "\<not> is_space (last t)"
  shows "str_strip t = t"
proof -
  have 1: "dropWhile is_space t = t"
    using assms(1,2) by (cases t) simp_all
  obtain ys where r: "rev t = last t # ys"
    using append_butlast_last_id [OF assms(1)] by (metis rev.simps(2) rev_rev_ident rev_swap)
  have 2: "dropWhile is_space (rev t) = rev t"
    unfolding r using assms(3) by simp
  show ?thesis by (simp add: str_strip_def 1 2)
qed

lemma int_digits_digits:
  "list_all is_digit ds \<Longrightarrow> ds \<noteq> [] \<or> prev \<Longrightarrow>
     int_digits acc prev ds = Some (foldl (\<lambda>a c. 10 * a + digit_val c) acc ds)"
  by (induction ds arbitrary: acc prev) simp_all

lemma filter_digits_all: "list_all is_digit ds \<Longrightarrow> filter is_digit ds = ds"
  by (induction ds) simp_all

lemma py_int_digits:
  assumes "t \<noteq> []" "list_all is_digit t" "length t \<le> int_max_str_digits"
  shows "py_int t = Some (digits_value t)"
proof -
  obtain c cs where t: "t = c # cs" using assms(1) by (cases t) simp_all
  have "is_digit (last t)" "is_digit (hd t)"
    using assms by (simp_all add: list_all_iff)
  then have "\<not> is_space (hd t)" "\<not> is_space (last t)"
    by (simp_all add: digit_not_space)
  then have s: "str_strip (c # cs) = c # cs"
    using str_strip_id [of t] assms(1) t by simp
  have c: "c \<noteq> CHR ''+''" "c \<noteq> CHR ''-''"
    using digit_not_sign [of c] assms(2) t by simp_all
  have d: "int_digits 0 False (c # cs) = Some (digits_value (c # cs))"
    unfolding digits_value_def by (rule int_digits_digits) (use assms(2) t in simp_all)
  have l: "\<not> int_max_str_digits < length (filter is_digit (c # cs))"
    using filter_digits_all [OF assms(2)] assms(3) t by simp
  show ?thesis
    unfolding t py_int_def s using c l by (simp add: d del: int_digits.simps)
qed

lemma py_int_signed:
  assumes "cs \<noteq> []" "list_all is_digit cs" "length cs \<le> int_max_str_digits"
  shows "py_int (CHR ''+'' # cs) = Some (digits_value cs)"
    and "py_int (CHR ''-'' # cs) = Some (- digits_value cs)"
proof -
  have "is_digit (last cs)" using assms by (simp add: list_all_iff)
  then have n: "\<not> is_space (last cs)" by (simp add: digit_not_space)
  have s: "str_strip (c # cs) = c # cs" if "\<not> is_space c" for c
    using str_strip_id [of "c # cs"] that n assms(1) by simp
  have d: "int_digits 0 False cs = Some (digits_value cs)"
    unfolding digits_value_def by (rule int_digits_digits [OF assms(2)]) (simp add: assms(1))
  have l: "\<not> int_max_str_digits < length (filter is_digit (c # cs))" if "\<not> is_digit c" for c
    using filter_digits_all [OF assms(2)] assms(3) that by simp
  show "py_int (CHR ''+'' # cs) = Some (digits_value cs)"
    unfolding py_int_def s [OF sign_not_space(1)] using l [OF sign_not_digit(1)]
    by (simp add: d del: int_digits.simps)
  show "py_int (CHR ''-'' # cs) = Some (- digits_value cs)"
    unfolding py_int_def s [OF sign_not_space(2)] using l [OF sign_not_digit(2)]
    by (simp add: d del: int_digits.simps)
qed

section \<open>The timestamp parser\<close>





















































lemma strptime_party_start: "strptime ''2024-01-01 10:00'' = Inr party_start"
  by code_simp








section \<open>The duration parser\<close>

lemma py_int_literal:
  assumes "int_literal t" "length (filter is_digit t) \<le> 4300"
  shows "py_int t = Some (literal_value t)"
proof -
  obtain c cs where t: "t = c # cs"
    using assms(1) by (cases t) (simp_all add: int_literal_def)
  show ?thesis
  proof (cases "c = CHR ''+'' \<or> c = CHR ''-''")
    case True
    then have cs: "cs \<noteq> []" "list_all is_digit cs"
      using assms(1) t by (simp_all add: int_literal_def)
    have "length cs \<le> int_max_str_digits"
      using assms(2) True filter_digits_all [OF cs(2)] sign_not_digit
      by (auto simp: t int_max_str_digits_def)
    from py_int_signed [OF cs this] show ?thesis
      using True by (auto simp: t literal_value_def)
  next
    case False
    then have ds: "list_all is_digit t"
      using assms(1) t by (simp add: int_literal_def)
    have "length t \<le> int_max_str_digits"
      using assms(2) filter_digits_all [OF ds] by (simp add: int_max_str_digits_def)
    then have "py_int t = Some (digits_value t)"
      using ds t by (intro py_int_digits) simp_all
    then show ?thesis
      using False by (simp add: t literal_value_def)
  qed
qed

lemma unit_lookup:
  "last c \<in> set ''wdhms'' \<Longrightarrow> map_of TIME_MULTIPLIERS (last c) = Some (chunk_unit c)"
  by (auto simp: TIME_MULTIPLIERS_def chunk_unit_def)

lemma short_chunk_butlast:
  assumes "c \<noteq> []" "short_chunk c"
  shows "length (filter is_digit (butlast c)) \<le> 4300"
proof -
  have "length (filter is_digit (butlast c)) \<le> length (filter is_digit (butlast c @ [last c]))"
    by simp
  then show ?thesis
    using assms by (simp add: short_chunk_def)
qed

lemma parse_chunks_valid:
  "\<forall>c \<in> set cs. valid_chunk c \<and> short_chunk c \<Longrightarrow>
     parse_chunks ev cs td
       = Inr (fold (\<lambda>c td. td(chunk_unit c \<mapsto> chunk_count c)) cs td)"
proof (induction cs arbitrary: td)
  case Nil
  then show ?case by simp
next
  case (Cons c cs)
  then have v: "c \<noteq> []" "last c \<in> set ''wdhms''" "int_literal (butlast c)" "short_chunk c"
    by (simp_all add: valid_chunk_def)
  note m = unit_lookup [OF v(2)]
  have i: "py_int (butlast c) = Some (chunk_count c)"
    using py_int_literal [OF v(3) short_chunk_butlast [OF v(1,4)]] by (simp add: chunk_count_def)
  have "parse_chunks ev (c # cs) td = parse_chunks ev cs (td(chunk_unit c \<mapsto> chunk_count c))"
    using v(1) m i by simp
  then show ?case using Cons by simp
qed

lemma fold_upd_map_of:
  "fold (\<lambda>c m. m(k c \<mapsto> v c)) cs m = m ++ map_of (rev (map (\<lambda>c. (k c, v c)) cs))"
proof (induction cs arbitrary: m)
  case Nil
  then show ?case by simp
next
  case (Cons c cs)
  have "fold (\<lambda>c m. m(k c \<mapsto> v c)) (c # cs) m = fold (\<lambda>c m. m(k c \<mapsto> v c)) cs (m(k c \<mapsto> v c))"
    by (simp only: fold_simps)
  also have "\<dots> = m(k c \<mapsto> v c) ++ map_of (rev (map (\<lambda>c. (k c, v c)) cs))"
    by (rule Cons.IH)
  also have "\<dots> = m ++ map_of (rev (map (\<lambda>c. (k c, v c)) (c # cs)))"
    by (rule ext) (simp add: map_add_def split: option.splits)
  finally show ?case .
qed

lemma parse_chunks_last_wins:
  "\<forall>c \<in> set cs. valid_chunk c \<and> short_chunk c \<Longrightarrow>
     parse_chunks ev cs Map.empty = Inr (last_wins cs)"
  by (simp add: parse_chunks_valid fold_upd_map_of last_wins_def)

lemma total_seconds_last_wins: "total_seconds (last_wins cs) = duration_seconds cs"
  by (simp add: total_seconds_def duration_seconds_def kwarg_def unit_count_def)

lemma parse_timedelta_chunks:
  assumes "ev ''event-duration'' = Some (Str s)"
      and "\<forall>c \<in> set (str_split s). valid_chunk c \<and> short_chunk c"
  shows "parse_timedelta ev =
           (if \<bar>duration_seconds (str_split s) div 86400\<bar> \<le> 999999999
            then Inr \<lparr>days = duration_seconds (str_split s) div 86400,
                      seconds = duration_seconds (str_split s) mod 86400\<rparr>
            else Inl OverflowError)"
proof -
  have "parse_timedelta ev = py_timedelta (last_wins (str_split s))"
    using assms(1) parse_chunks_last_wins [OF assms(2)] by (simp add: parse_timedelta_def)
  then show ?thesis
    by (simp add: py_timedelta_def Let_def total_seconds_last_wins)
qed

lemma dom_last_wins: "dom (last_wins cs) = chunk_unit ` set cs"
  by (simp add: last_wins_def dom_map_of_conv_image_fst image_image)

lemma last_wins_last:
  assumes "chunk_unit c \<notin> chunk_unit ` set ys"
  shows "last_wins (xs @ c # ys) (chunk_unit c) = Some (chunk_count c)"
proof -
  have "map_of (rev (map (\<lambda>c. (chunk_unit c, chunk_count c)) ys)) (chunk_unit c) = None"
    using assms by (simp add: map_of_eq_None_iff image_image)
  then show ?thesis
    by (simp add: last_wins_def map_of_append map_add_def)
qed

lemma last_wins_order:
  assumes "set cs' = set cs" "distinct (map chunk_unit cs)" "distinct (map chunk_unit cs')"
  shows "last_wins cs' = last_wins cs"
proof -
  let ?kv = "\<lambda>c. (chunk_unit c, chunk_count c)"
  have "map_of (rev (map ?kv cs')) = map_of (rev (map ?kv cs))"
  proof (subst map_of_inject_set)
    show "distinct (map fst (rev (map ?kv cs')))"
      using assms(3) by (simp add: rev_map [symmetric] comp_def)
    show "distinct (map fst (rev (map ?kv cs)))"
      using assms(2) by (simp add: rev_map [symmetric] comp_def)
    show "set (rev (map ?kv cs')) = set (rev (map ?kv cs))"
      using assms(1) by simp
  qed
  then show ?thesis by (simp add: last_wins_def)
qed

lemma duration_seconds_order:
  assumes "set cs' = set cs" "distinct (map chunk_unit cs)" "distinct (map chunk_unit cs')"
  shows "duration_seconds cs' = duration_seconds cs"
  by (simp add: duration_seconds_def unit_count_def last_wins_order [OF assms])

lemma split_examples:
  "str_split ''2h 30m'' = [''2h'', ''30m'']" "str_split ''30m 2h'' = [''30m'', ''2h'']"
  "str_split ''1d 1d'' = [''1d'', ''1d'']" "str_split ''1d 2d'' = [''1d'', ''2d'']"
  "str_split ''1w 2d 3h 4m 5s'' = [''1w'', ''2d'', ''3h'', ''4m'', ''5s'']"
  "str_split ''1000000000d'' = [''1000000000d'']"
  by code_simp+

lemma valid_examples:
  "valid_chunk ''2h'' \<and> short_chunk ''2h''" "valid_chunk ''30m'' \<and> short_chunk ''30m''"
  "valid_chunk ''1d'' \<and> short_chunk ''1d''" "valid_chunk ''2d'' \<and> short_chunk ''2d''"
  "valid_chunk ''1w'' \<and> short_chunk ''1w''" "valid_chunk ''3h'' \<and> short_chunk ''3h''"
  "valid_chunk ''4m'' \<and> short_chunk ''4m''" "valid_chunk ''5s'' \<and> short_chunk ''5s''"
  "valid_chunk ''1000000000d'' \<and> short_chunk ''1000000000d''"
  by code_simp+

lemma last_wins_examples:
  "duration_seconds [''2h'', ''30m''] = 9000"
  "duration_seconds [''1d'', ''1d''] = 86400"
  "duration_seconds [''1d'', ''2d''] = 172800"
  "duration_seconds [''1w'', ''2d'', ''3h'', ''4m'', ''5s''] = 788645"
  "last_wins [''2h'', ''30m''] ''hours'' = Some 2"
  "last_wins [''2h'', ''30m''] ''minutes'' = Some 30"
  "last_wins [''2h'', ''30m''] ''days'' = None"
  "last_wins [''1d'', ''1d''] ''days'' = Some 1"
  "last_wins [''1d'', ''2d''] ''days'' = Some 2"
  "last_wins [''1w'', ''2d'', ''3h'', ''4m'', ''5s''] ''weeks'' = Some 1"
  "last_wins [''1w'', ''2d'', ''3h'', ''4m'', ''5s''] ''seconds'' = Some 5"
  "distinct (map chunk_unit [''2h'', ''30m''])" "distinct (map chunk_unit [''30m'', ''2h''])"
  by code_simp+

lemma parse_timedelta_overflow: "parse_timedelta (duration_of ''1000000000d'') = Inl OverflowError"
  by code_simp

lemma valid_overflow_chunk:
  "list_all (\<lambda>c. valid_chunk c \<and> short_chunk c) (str_split ''1000000000d'')"
  unfolding split_examples by (simp add: valid_examples)

text \<open>
  C3, as the code has it. For a duration string all of whose chunks are an integer
  literal of at most 4300 digits followed by one of \<^verbatim>\<open>w d h m s\<close>, the loop raises
  nothing and hands \<^verbatim>\<open>timedelta\<close> the dictionary \<open>last_wins\<close>: one count per unit
  mentioned, the last chunk of a unit giving its count. The parser returns the span of
  604800 seconds per week, 86400 per day, 3600 per hour, 60 per minute and 1 per second
  of these counts when that is at most 999999999 days in magnitude, and raises
  \<^verbatim>\<open>OverflowError\<close> beyond. Two strings with the same chunks, each unit at most once,
  give the same result in any order.
\<close>

theorem parse_timedelta_valid_chunks:
  assumes "ev ''event-duration'' = Some (Str s)"
      and "\<forall>c \<in> set (str_split s). valid_chunk c \<and> short_chunk c"
  shows "parse_chunks ev (str_split s) Map.empty = Inr (last_wins (str_split s))
       \<and> dom (last_wins (str_split s)) = chunk_unit ` set (str_split s)
       \<and> (\<forall>xs c ys. str_split s = xs @ c # ys \<and> chunk_unit c \<notin> chunk_unit ` set ys \<longrightarrow>
             last_wins (str_split s) (chunk_unit c) = Some (chunk_count c))
       \<and> parse_timedelta ev =
            (if \<bar>duration_seconds (str_split s) div 86400\<bar> \<le> 999999999
             then Inr \<lparr>days = duration_seconds (str_split s) div 86400,
                       seconds = duration_seconds (str_split s) mod 86400\<rparr>
             else Inl OverflowError)
       \<and> (\<forall>s'. set (str_split s') = set (str_split s)
                \<and> distinct (map chunk_unit (str_split s))
                \<and> distinct (map chunk_unit (str_split s')) \<longrightarrow>
              parse_timedelta (ev(''event-duration'' \<mapsto> Str s')) = parse_timedelta ev)"
proof (intro conjI allI impI)
  show "parse_chunks ev (str_split s) Map.empty = Inr (last_wins (str_split s))"
    using assms(2) by (rule parse_chunks_last_wins)
  show "dom (last_wins (str_split s)) = chunk_unit ` set (str_split s)"
    by (rule dom_last_wins)
  show "last_wins (str_split s) (chunk_unit c) = Some (chunk_count c)"
    if "str_split s = xs @ c # ys \<and> chunk_unit c \<notin> chunk_unit ` set ys" for xs c ys
  proof -
    from that have e: "str_split s = xs @ c # ys"
      and n: "chunk_unit c \<notin> chunk_unit ` set ys" by blast+
    show ?thesis unfolding e by (rule last_wins_last [OF n])
  qed
  show pt: "parse_timedelta ev =
            (if \<bar>duration_seconds (str_split s) div 86400\<bar> \<le> 999999999
             then Inr \<lparr>days = duration_seconds (str_split s) div 86400,
                       seconds = duration_seconds (str_split s) mod 86400\<rparr>
             else Inl OverflowError)"
    by (rule parse_timedelta_chunks [where ev = ev and s = s, OF assms])
  show "parse_timedelta (ev(''event-duration'' \<mapsto> Str s')) = parse_timedelta ev"
    if a: "set (str_split s') = set (str_split s)
           \<and> distinct (map chunk_unit (str_split s))
           \<and> distinct (map chunk_unit (str_split s'))" for s'
  proof -
    from a have e: "set (str_split s') = set (str_split s)"
      and d: "distinct (map chunk_unit (str_split s))"
      and d': "distinct (map chunk_unit (str_split s'))" by blast+
    have v: "\<forall>c \<in> set (str_split s'). valid_chunk c \<and> short_chunk c"
      unfolding e by (rule assms(2))
    have u: "(ev(''event-duration'' \<mapsto> Str s')) ''event-duration'' = Some (Str s')"
      by simp
    have o: "duration_seconds (str_split s') = duration_seconds (str_split s)"
      by (rule duration_seconds_order [OF e d d'])
    show ?thesis
      unfolding parse_timedelta_chunks
        [where ev = "ev(''event-duration'' \<mapsto> Str s')" and s = s', OF u v] pt o ..
  qed
qed

text \<open>
  C3 as stated fails on a span that \<^verbatim>\<open>timedelta\<close> cannot hold: the chunk
  \<^verbatim>\<open>1000000000d\<close> is well formed, and the parser raises \<^verbatim>\<open>OverflowError\<close>.
\<close>

theorem parse_timedelta_valid_chunks_counterexample:
  "list_all (\<lambda>c. valid_chunk c \<and> short_chunk c) (str_split ''1000000000d'')
   \<and> parse_timedelta (duration_of ''1000000000d'') = Inl OverflowError"
  using parse_timedelta_overflow valid_overflow_chunk by simp

text \<open>
  The examples of the specification, a string that names every unit, and a unit given
  twice with different counts.
\<close>

theorem parse_timedelta_valid_chunks_witness:
  "list_all (\<lambda>c. valid_chunk c \<and> short_chunk c) (str_split ''1w 2d 3h 4m 5s'')
   \<and> parse_timedelta (duration_of ''1w 2d 3h 4m 5s'') = Inr \<lparr>days = 9, seconds = 11045\<rparr>
   \<and> parse_chunks (duration_of ''1w 2d 3h 4m 5s'') (str_split ''1w 2d 3h 4m 5s'') Map.empty
       = Inr (last_wins [''1w'', ''2d'', ''3h'', ''4m'', ''5s''])
   \<and> last_wins [''1w'', ''2d'', ''3h'', ''4m'', ''5s''] ''weeks'' = Some 1
   \<and> last_wins [''1w'', ''2d'', ''3h'', ''4m'', ''5s''] ''seconds'' = Some 5
   \<and> parse_timedelta (duration_of ''2h 30m'') = Inr \<lparr>days = 0, seconds = 9000\<rparr>
   \<and> last_wins (str_split ''2h 30m'') ''hours'' = Some 2
   \<and> last_wins (str_split ''2h 30m'') ''minutes'' = Some 30
   \<and> parse_timedelta (duration_of ''30m 2h'') = parse_timedelta (duration_of ''2h 30m'')
   \<and> parse_timedelta (duration_of ''1d 1d'') = Inr \<lparr>days = 1, seconds = 0\<rparr>
   \<and> parse_timedelta (duration_of ''1d 2d'') = Inr \<lparr>days = 2, seconds = 0\<rparr>"
proof -
  have d: "duration_of s ''event-duration'' = Some (Str s)" for s
    by (simp add: duration_of_def)
  have u: "(duration_of s)(''event-duration'' \<mapsto> Str s') = duration_of s'" for s s'
    by (simp add: duration_of_def)
  have v: "\<forall>c \<in> set (str_split ''2h 30m''). valid_chunk c \<and> short_chunk c"
    "\<forall>c \<in> set (str_split ''1d 1d''). valid_chunk c \<and> short_chunk c"
    "\<forall>c \<in> set (str_split ''1d 2d''). valid_chunk c \<and> short_chunk c"
    "\<forall>c \<in> set (str_split ''1w 2d 3h 4m 5s''). valid_chunk c \<and> short_chunk c"
    unfolding split_examples by (simp_all add: valid_examples)
  note t1 = parse_timedelta_valid_chunks
    [where ev = "duration_of ''2h 30m''" and s = "''2h 30m''", OF d v(1)]
  note t2 = parse_timedelta_valid_chunks
    [where ev = "duration_of ''1d 1d''" and s = "''1d 1d''", OF d v(2)]
  note t3 = parse_timedelta_valid_chunks
    [where ev = "duration_of ''1d 2d''" and s = "''1d 2d''", OF d v(3)]
  note t4 = parse_timedelta_valid_chunks
    [where ev = "duration_of ''1w 2d 3h 4m 5s''" and s = "''1w 2d 3h 4m 5s''", OF d v(4)]
  have 1: "parse_timedelta (duration_of ''2h 30m'') = Inr \<lparr>days = 0, seconds = 9000\<rparr>"
    using t1 unfolding split_examples last_wins_examples by simp
  have 2: "parse_timedelta (duration_of ''1d 1d'') = Inr \<lparr>days = 1, seconds = 0\<rparr>"
    using t2 unfolding split_examples last_wins_examples by simp
  have 3: "parse_timedelta (duration_of ''1d 2d'') = Inr \<lparr>days = 2, seconds = 0\<rparr>"
    using t3 unfolding split_examples last_wins_examples by simp
  have 4: "parse_timedelta (duration_of ''1w 2d 3h 4m 5s'') = Inr \<lparr>days = 9, seconds = 11045\<rparr>"
    using t4 unfolding split_examples last_wins_examples by simp
  have 5: "parse_chunks (duration_of ''1w 2d 3h 4m 5s'') (str_split ''1w 2d 3h 4m 5s'') Map.empty
       = Inr (last_wins [''1w'', ''2d'', ''3h'', ''4m'', ''5s''])"
    using t4 unfolding split_examples by blast
  have "set (str_split ''30m 2h'') = set (str_split ''2h 30m'')
        \<and> distinct (map chunk_unit (str_split ''2h 30m''))
        \<and> distinct (map chunk_unit (str_split ''30m 2h''))"
    unfolding split_examples using last_wins_examples(12,13) by auto
  moreover have "\<forall>s'. set (str_split s') = set (str_split ''2h 30m'')
                \<and> distinct (map chunk_unit (str_split ''2h 30m''))
                \<and> distinct (map chunk_unit (str_split s')) \<longrightarrow>
              parse_timedelta ((duration_of ''2h 30m'')(''event-duration'' \<mapsto> Str s'))
                = parse_timedelta (duration_of ''2h 30m'')"
    using t1 by blast
  ultimately have "parse_timedelta ((duration_of ''2h 30m'')(''event-duration'' \<mapsto> Str ''30m 2h''))
                = parse_timedelta (duration_of ''2h 30m'')"
    by blast
  then have 6: "parse_timedelta (duration_of ''30m 2h'') = parse_timedelta (duration_of ''2h 30m'')"
    unfolding u .
  have 7: "last_wins (str_split ''2h 30m'') ''hours'' = Some 2"
    "last_wins (str_split ''2h 30m'') ''minutes'' = Some 30"
    unfolding split_examples by (simp_all add: last_wins_examples)
  have 8: "list_all (\<lambda>c. valid_chunk c \<and> short_chunk c) (str_split ''1w 2d 3h 4m 5s'')"
    using v(4) by (simp add: list_all_iff)
  show ?thesis using 1 2 3 4 5 6 7 8 last_wins_examples(10,11) by blast
qed

section \<open>The resolver: precedence and idempotence\<close>

lemma parse_tstamp_party_start: "parse_tstamp party_metadata ''event-start'' = Inr party_start"
  by (simp add: parse_tstamp_def party_metadata_def strptime_party_start)

lemma parse_timedelta_party: "parse_timedelta party_metadata = Inr \<lparr>days = 0, seconds = 7200\<rparr>"
  by code_simp

lemma dt_add_party: "dt_add party_start \<lparr>days = 0, seconds = 7200\<rparr> = Inr party_end"
  by code_simp

lemma parse_tstamp_endless_start:
  "parse_tstamp (c_metadata endless) ''event-start'' = Inr party_start"
  by (simp add: parse_tstamp_def endless_def strptime_party_start)

lemma c_metadata_set_event_attrs [simp]:
  "c_metadata (set_event_attrs c s e) = c_metadata c"
  by (simp add: set_event_attrs_def)

lemma parse_tstamp_Inr_present:
  "parse_tstamp ev f = Inr dt \<Longrightarrow> ev f \<noteq> None"
  by (auto simp: parse_tstamp_def split: option.splits)

lemma parse_article_unfold:
  assumes "parse_tstamp (c_metadata c) ''event-start'' = Inr s"
  shows "parse_article c =
     (case (if c_metadata c ''event-end'' \<noteq> None then parse_tstamp (c_metadata c) ''event-end''
            else if c_metadata c ''event-duration'' \<noteq> None then
              (case parse_timedelta (c_metadata c) of
                 Inl e \<Rightarrow> Inl e
               | Inr dtdelta \<Rightarrow> dt_add s dtdelta)
            else (case c_metadata c ''title'' of
                    None \<Rightarrow> Inl (KeyError ''title'')
                  | Some t \<Rightarrow> Inl (ValueError (missing_end_msg t)))) of
        Inl e \<Rightarrow> Inl e
      | Inr e2 \<Rightarrow> Inr (set_event_attrs c s e2))"
proof -
  obtain v where "c_metadata c ''event-start'' = Some v"
    using parse_tstamp_Inr_present [OF assms] by blast
  then show ?thesis
    using assms by (simp add: parse_article_def Let_def)
qed







lemma parse_article_Inr:
  assumes "parse_article c = Inr c'" and "c_metadata c ''event-start'' \<noteq> None"
  shows "\<exists>s e. c' = set_event_attrs c s e \<and>
           (\<forall>c2. c_metadata c2 = c_metadata c \<longrightarrow> parse_article c2 = Inr (set_event_attrs c2 s e))"
proof -
  obtain v where v: "c_metadata c ''event-start'' = Some v"
    using assms(2) by blast
  obtain s where s: "parse_tstamp (c_metadata c) ''event-start'' = Inr s"
    using assms(1) v
    by (cases "parse_tstamp (c_metadata c) ''event-start''") (simp_all add: parse_article_def Let_def)
  let ?r = "\<lambda>md. if md ''event-end'' \<noteq> None then parse_tstamp md ''event-end''
            else if md ''event-duration'' \<noteq> None then
              (case parse_timedelta md of
                 Inl e \<Rightarrow> Inl e
               | Inr dtdelta \<Rightarrow> dt_add s dtdelta)
            else (case md ''title'' of
                    None \<Rightarrow> Inl (KeyError ''title'')
                  | Some t \<Rightarrow> Inl (ValueError (missing_end_msg t)))"
  have u: "parse_article c2 = (case ?r (c_metadata c) of Inl e \<Rightarrow> Inl e
                               | Inr e2 \<Rightarrow> Inr (set_event_attrs c2 s e2))"
    if "c_metadata c2 = c_metadata c" for c2
    using parse_article_unfold [of c2 s] s that by simp
  obtain e where e: "?r (c_metadata c) = Inr e"
    using assms(1) u [of c] by (cases "?r (c_metadata c)") simp_all
  have "c' = set_event_attrs c s e"
    using assms(1) u [of c] e by simp
  moreover have "parse_article c2 = Inr (set_event_attrs c2 s e)" if "c_metadata c2 = c_metadata c" for c2
    using u [OF that] e by simp
  ultimately show ?thesis by blast
qed

text \<open>
  C9. When the resolver has succeeded on a content item and returned it as \<open>c'\<close>, a
  second run on \<open>c'\<close> raises nothing and returns \<open>c'\<close> itself: every attribute, the
  start and the end under both spellings among them, keeps the value of the first run.
\<close>

theorem parse_article_idempotent:
  assumes "parse_article c = Inr c'"
  shows "parse_article c' = Inr c'"
proof (cases "c_metadata c ''event-start'' = None")
  case True
  then have "c' = c" using assms by (simp add: parse_article_def)
  then show ?thesis using assms by simp
next
  case False
  from parse_article_Inr [OF assms False] obtain s e where
    c': "c' = set_event_attrs c s e" and
    again: "\<And>c2. c_metadata c2 = c_metadata c \<Longrightarrow> parse_article c2 = Inr (set_event_attrs c2 s e)"
    by blast
  have "parse_article c' = Inr (set_event_attrs c' s e)"
    by (rule again) (simp add: c')
  then show ?thesis by (simp add: c' set_event_attrs_def)
qed

lemma parse_article_party:
  "parse_article party = Inr (set_event_attrs party party_start party_end)"
proof -
  have s: "parse_tstamp (c_metadata party) ''event-start'' = Inr party_start"
    by (simp add: party_def parse_tstamp_party_start)
  have md: "c_metadata party = party_metadata"
    by (simp add: party_def)
  have k: "party_metadata ''event-end'' = None" "party_metadata ''event-duration'' \<noteq> None"
    by (simp_all add: party_metadata_def)
  show ?thesis
    unfolding parse_article_unfold [OF s] md
    by (simp add: k parse_timedelta_party dt_add_party)
qed

theorem parse_article_idempotent_witness:
  "parse_article party = Inr (set_event_attrs party party_start party_end)
   \<and> parse_article (set_event_attrs party party_start party_end)
       = Inr (set_event_attrs party party_start party_end)
   \<and> attrs (set_event_attrs party party_start party_end) ''event_end'' = Some party_end
   \<and> attrs (set_event_attrs party party_start party_end) ''event-end'' = Some party_end"
  using parse_article_idempotent [OF parse_article_party] parse_article_party
  by (simp add: set_event_attrs_def)

section \<open>The store, the exporter and the publisher\<close>

lemma collect_events_frame:
  "collect_events cs w = (w', err) \<Longrightarrow>
     localized_events w' = localized_events w \<and> fs_dirs w' = fs_dirs w
     \<and> fs_files w' = fs_files w \<and> events_list w' = events_list w"
  by (induction cs arbitrary: w) (auto split: option.splits if_splits)

lemma collect_events_mono:
  "collect_events cs w = (w', err) \<Longrightarrow> set (events w) \<subseteq> set (events w')"
proof (induction cs arbitrary: w)
  case Nil
  then show ?case by simp
next
  case (Cons c cs)
  show ?case
  proof (cases "attrs c ''event_start''")
    case None
    then show ?thesis using Cons by simp
  next
    case (Some s)
    show ?thesis
    proof (cases "attrs c ''event_end''")
      case None
      then show ?thesis using Cons.prems Some by simp
    next
      case (Some t)
      let ?w = "if mk_event c s t \<in> set (events w) then w
                else w\<lparr>events := events w @ [mk_event c s t]\<rparr>"
      have "collect_events cs ?w = (w', err)"
        using Cons.prems \<open>attrs c ''event_start'' = Some s\<close> Some by simp
      from Cons.IH [OF this] show ?thesis by (auto split: if_splits)
    qed
  qed
qed

lemma collect_events_set:
  "collect_events cs w = (w', None) \<Longrightarrow>
     set (events w') = set (events w) \<union> {e. \<exists>c \<in> set cs. both_resolved c e}"
proof (induction cs arbitrary: w)
  case Nil
  then show ?case by simp
next
  case (Cons c cs)
  show ?case
  proof (cases "attrs c ''event_start''")
    case None
    then have "collect_events cs w = (w', None)" using Cons.prems by simp
    from Cons.IH [OF this] show ?thesis using None by (auto simp: both_resolved_def)
  next
    case (Some s)
    then obtain t where t: "attrs c ''event_end'' = Some t"
      using Cons.prems by (cases "attrs c ''event_end''") simp_all
    let ?w = "if mk_event c s t \<in> set (events w) then w
              else w\<lparr>events := events w @ [mk_event c s t]\<rparr>"
    have "collect_events cs ?w = (w', None)"
      using Cons.prems Some t by simp
    from Cons.IH [OF this]
    have "set (events w') = insert (mk_event c s t) (set (events w)) \<union> {e. \<exists>c \<in> set cs. both_resolved c e}"
      by (auto split: if_splits)
    moreover have "both_resolved c e \<longleftrightarrow> e = mk_event c s t" for e
      using Some t by (auto simp: both_resolved_def)
    ultimately show ?thesis by auto
  qed
qed

lemma collect_events_distinct:
  "collect_events cs w = (w', err) \<Longrightarrow> distinct (events w) \<Longrightarrow> distinct (events w')"
  by (induction cs arbitrary: w) (auto split: option.splits if_splits)

lemma collect_events_ok_attrs:
  "collect_events cs w = (w', None) \<Longrightarrow> c \<in> set cs \<Longrightarrow> attrs c ''event_start'' = Some s \<Longrightarrow>
     \<exists>t. attrs c ''event_end'' = Some t"
  by (induction cs arbitrary: w) (auto split: option.splits if_splits)

lemma collect_events_nothing_new:
  "(\<And>c s. c \<in> set cs \<Longrightarrow> attrs c ''event_start'' = Some s \<Longrightarrow>
       \<exists>t. attrs c ''event_end'' = Some t \<and> mk_event c s t \<in> set (events w)) \<Longrightarrow>
   collect_events cs w = (w, None)"
proof (induction cs)
  case Nil
  then show ?case by simp
next
  case (Cons c cs)
  have IH: "collect_events cs w = (w, None)"
    by (rule Cons.IH) (use Cons.prems in auto)
  show ?case
  proof (cases "attrs c ''event_start''")
    case None
    then show ?thesis using IH by simp
  next
    case (Some s)
    with Cons.prems [of c s] obtain t where
      "attrs c ''event_end'' = Some t" "mk_event c s t \<in> set (events w)" by auto
    then show ?thesis using Some IH by simp
  qed
qed

lemma collect_events_twice:
  assumes "collect_events cs w = (w1, None)"
  shows "collect_events cs w1 = (w1, None)"
proof (rule collect_events_nothing_new)
  fix c s assume c: "c \<in> set cs" and s: "attrs c ''event_start'' = Some s"
  from collect_events_ok_attrs [OF assms c s] obtain t where t: "attrs c ''event_end'' = Some t" ..
  have "both_resolved c (mk_event c s t)"
    using s t by (auto simp: both_resolved_def)
  then have "mk_event c s t \<in> set (events w1)"
    using collect_events_set [OF assms] c by auto
  then show "\<exists>t. attrs c ''event_end'' = Some t \<and> mk_event c s t \<in> set (events w1)"
    using t by blast
qed

lemma event_key_le_iff:
  "event_key b \<le> event_key a \<longleftrightarrow>
     dt_tuple (dtstart b) < dt_tuple (dtstart a)
     \<or> (dt_tuple (dtstart b) = dt_tuple (dtstart a) \<and> dt_tuple (dtend b) \<le> dt_tuple (dtend a))"
  unfolding event_key_def less_eq_prod_simp by auto

lemma descending_sorted_reverse: "descending (sorted_reverse xs)"
proof -
  have "sorted (map event_key (sort_key event_key (rev xs)))"
    by (rule sorted_sort_key)
  then have "sorted_wrt (\<lambda>a b. event_key a \<le> event_key b) (sort_key event_key (rev xs))"
    by (simp add: sorted_map)
  then have "sorted_wrt (\<lambda>a b. event_key b \<le> event_key a) (sorted_reverse xs)"
    unfolding sorted_reverse_def by (simp add: sorted_wrt_rev)
  then show ?thesis
    unfolding descending_def event_key_le_iff .
qed

lemma sorted_reverse_idem: "sorted_reverse (sorted_reverse xs) = sorted_reverse xs"
  unfolding sorted_reverse_def
  by (simp add: sort_key_id_if_sorted)

lemma set_sorted_reverse [simp]: "set (sorted_reverse xs) = set xs"
  by (simp add: sorted_reverse_def)

lemma dd_append_mem:
  "(k', es) \<in> set (dd_append k v d) \<Longrightarrow> e \<in> set es \<Longrightarrow>
     (k' = k \<and> e = v) \<or> (\<exists>es0. (k', es0) \<in> set d \<and> e \<in> set es0)"
proof (induction d)
  case Nil
  then show ?case by simp
next
  case (Cons p d)
  obtain k0 vs where p: "p = (k0, vs)" by (cases p)
  show ?case
  proof (cases "k0 = k")
    case True
    then have "(k', es) = (k, vs @ [v]) \<or> (k', es) \<in> set d"
      using Cons.prems(1) p by simp
    then show ?thesis
    proof
      assume "(k', es) = (k, vs @ [v])"
      then show ?thesis using Cons.prems(2) p True by auto
    next
      assume "(k', es) \<in> set d"
      then show ?thesis using Cons.prems(2) by auto
    qed
  next
    case False
    then have "(k', es) = (k0, vs) \<or> (k', es) \<in> set (dd_append k v d)"
      using Cons.prems(1) p by simp
    then show ?thesis
    proof
      assume "(k', es) = (k0, vs)"
      then show ?thesis using Cons.prems(2) p by auto
    next
      assume "(k', es) \<in> set (dd_append k v d)"
      from Cons.IH [OF this Cons.prems(2)] show ?thesis by auto
    qed
  qed
qed

lemma dd_get_snd_mem:
  "(k', es) \<in> set (snd (dd_get k d)) \<Longrightarrow> e \<in> set es \<Longrightarrow> (k', es) \<in> set d"
  by (cases "map_of d k") (auto simp: dd_get_def)

lemma dd_get_fst_mem:
  "e \<in> set (fst (dd_get k d)) \<Longrightarrow> \<exists>es. (k, es) \<in> set d \<and> e \<in> set es"
  by (cases "map_of d k") (auto simp: dd_get_def dest: map_of_SomeD)

lemma generate_ical_file_configured:
  assumes "configured h g fname"
  shows "generate_ical_file h g w =
     (case ical_events h (g_settings g) (curr_events g w) of
        Inl e \<Rightarrow> (after_lookup g w, Some e)
      | Inr ies \<Rightarrow>
          if can_open h (fs_dirs w) (path_join h (OUTPUT_PATH (g_settings g)) fname)
          then (after_lookup g w
                  \<lparr>fs_files := (fs_files w)(path_join h (OUTPUT_PATH (g_settings g)) fname \<mapsto> new_calendar ies)\<rparr>,
                None)
          else (after_lookup g w, Some (IOError (path_join h (OUTPUT_PATH (g_settings g)) fname))))"
proof -
  from assms obtain pe where pe: "PLUGIN_EVENTS (g_settings g) = Some pe"
    "pe ''ics_fname'' = Some (Str fname)" "fname \<noteq> []" "tz_known h (TIMEZONE (g_settings g))"
    unfolding configured_def by blast
  show ?thesis
  proof (cases "localized_events w = []")
    case True
    then show ?thesis
      using pe by (simp add: generate_ical_file_def truthy_def Let_def curr_events_def after_lookup_def
          split: sum.splits)
  next
    case False
    then show ?thesis
      using pe by (simp add: generate_ical_file_def truthy_def Let_def curr_events_def after_lookup_def
          split: sum.splits prod.splits)
  qed
qed

lemma generate_ical_file_not_configured:
  assumes "\<And>fname. \<not> configured h g fname"
  shows "fst (generate_ical_file h g w) = w"
proof (cases "PLUGIN_EVENTS (g_settings g)")
  case None
  then show ?thesis by (simp add: generate_ical_file_def)
next
  case (Some pe)
  show ?thesis
  proof (cases "pe ''ics_fname''")
    case None
    then show ?thesis using Some by (simp add: generate_ical_file_def)
  next
    case (Some v)
    show ?thesis
    proof (cases v)
      case PNone
      then show ?thesis
        using Some \<open>PLUGIN_EVENTS (g_settings g) = Some pe\<close>
        by (simp add: generate_ical_file_def truthy_def)
    next
      case (Str fname)
      have "fname = [] \<or> \<not> tz_known h (TIMEZONE (g_settings g))"
        using assms [of fname] Some Str \<open>PLUGIN_EVENTS (g_settings g) = Some pe\<close>
        by (auto simp: configured_def)
      then show ?thesis
        using Some Str \<open>PLUGIN_EVENTS (g_settings g) = Some pe\<close>
        by (auto simp: generate_ical_file_def truthy_def Let_def)
    next
      case (DateTime dt)
      then show ?thesis
        using Some \<open>PLUGIN_EVENTS (g_settings g) = Some pe\<close>
        by (simp add: generate_ical_file_def truthy_def)
    qed
  qed
qed

lemma generate_ical_file_frame:
  "events (fst (generate_ical_file h g w)) = events w
   \<and> fs_dirs (fst (generate_ical_file h g w)) = fs_dirs w
   \<and> events_list (fst (generate_ical_file h g w)) = events_list w
   \<and> (localized_events (fst (generate_ical_file h g w)) = localized_events w
      \<or> localized_events (fst (generate_ical_file h g w))
          = snd (dd_get (Str (DEFAULT_LANG (g_settings g))) (localized_events w)))"
proof (cases "\<exists>fname. configured h g fname")
  case True
  then obtain fname where "configured h g fname" ..
  then show ?thesis
    by (simp add: generate_ical_file_configured after_lookup_def split: sum.splits)
next
  case False
  then show ?thesis by (simp add: generate_ical_file_not_configured)
qed

lemma localize_loop_frame:
  "localize_loop es w = (w', err) \<Longrightarrow>
     events w' = events w \<and> fs_dirs w' = fs_dirs w \<and> fs_files w' = fs_files w
     \<and> events_list w' = events_list w"
proof (induction es arbitrary: w)
  case Nil
  then show ?case by simp
next
  case (Cons e es)
  show ?case
  proof (cases "metadata e ''lang''")
    case None
    show ?thesis
    proof (cases "metadata e ''title''")
      case None
      then show ?thesis using Cons.prems \<open>metadata e ''lang'' = None\<close> by simp
    next
      case (Some t)
      then have "localize_loop es w = (w', err)"
        using Cons.prems \<open>metadata e ''lang'' = None\<close> by simp
      then show ?thesis by (rule Cons.IH)
    qed
  next
    case (Some l)
    then have "localize_loop es (w\<lparr>localized_events := dd_append l e (localized_events w)\<rparr>) = (w', err)"
      using Cons.prems by simp
    from Cons.IH [OF this] show ?thesis by simp
  qed
qed

lemma localize_loop_mem:
  "localize_loop es w = (w', err) \<Longrightarrow> (k, xs) \<in> set (localized_events w') \<Longrightarrow> x \<in> set xs \<Longrightarrow>
     (\<exists>xs0. (k, xs0) \<in> set (localized_events w) \<and> x \<in> set xs0)
     \<or> (x \<in> set es \<and> metadata x ''lang'' = Some k)"
proof (induction es arbitrary: w)
  case Nil
  then show ?case by auto
next
  case (Cons e es)
  show ?case
  proof (cases "metadata e ''lang''")
    case None
    show ?thesis
    proof (cases "metadata e ''title''")
      case None
      then have "w' = w" using Cons.prems(1) \<open>metadata e ''lang'' = None\<close> by simp
      then show ?thesis using Cons.prems(2,3) by auto
    next
      case (Some t)
      then have "localize_loop es w = (w', err)"
        using Cons.prems(1) \<open>metadata e ''lang'' = None\<close> by simp
      from Cons.IH [OF this Cons.prems(2,3)] show ?thesis by auto
    qed
  next
    case (Some l)
    let ?w = "w\<lparr>localized_events := dd_append l e (localized_events w)\<rparr>"
    have "localize_loop es ?w = (w', err)"
      using Cons.prems(1) Some by simp
    from Cons.IH [OF this Cons.prems(2,3)]
    consider xs0 where "(k, xs0) \<in> set (dd_append l e (localized_events w))" "x \<in> set xs0"
      | "x \<in> set es" "metadata x ''lang'' = Some k"
      by auto
    then show ?thesis
    proof cases
      case 1
      from dd_append_mem [OF this] show ?thesis using Some by auto
    next
      case 2
      then show ?thesis by simp
    qed
  qed
qed

lemma store_inv_initialize: "store_inv (initialize_events w)"
  by (simp add: store_inv_def initialize_events_def)

lemma store_inv_collect:
  assumes "store_inv w"
  shows "store_inv (fst (collect_events cs w))"
proof -
  obtain w' err where r: "collect_events cs w = (w', err)" by (cases "collect_events cs w")
  have d: "distinct (events w')"
    using collect_events_distinct [OF r] assms by (simp add: store_inv_def)
  have l: "localized_events w' = localized_events w"
    using collect_events_frame [OF r] by simp
  have m: "set (events w) \<subseteq> set (events w')"
    by (rule collect_events_mono [OF r])
  have "e \<in> set (events w') \<and> metadata e ''lang'' = Some k"
    if "(k, es) \<in> set (localized_events w')" "e \<in> set es" for k es e
  proof -
    have "e \<in> set (events w) \<and> metadata e ''lang'' = Some k"
      using assms that l unfolding store_inv_def by metis
    then show ?thesis using m by blast
  qed
  then show ?thesis
    using d r unfolding store_inv_def by simp
qed

lemma store_inv_localize:
  assumes "store_inv w"
  shows "store_inv (fst (generate_localized_events g w))"
proof (cases "''i18n_subsites'' \<in> set (PLUGINS (g_settings g))")
  case False
  then show ?thesis using assms by (simp add: generate_localized_events_def)
next
  case True
  define w1 where "w1 = (if OUTPUT_PATH (g_settings g) \<in> set (fs_dirs w) then w
                         else w\<lparr>fs_dirs := fs_dirs w @ [OUTPUT_PATH (g_settings g)]\<rparr>)"
  have w1: "events w1 = events w" "localized_events w1 = localized_events w"
    by (simp_all add: w1_def)
  obtain w' err where r: "localize_loop (events w1) w1 = (w', err)"
    by (cases "localize_loop (events w1) w1")
  have res: "generate_localized_events g w = (w', err)"
    using True r by (simp add: generate_localized_events_def Let_def w1_def)
  have ev: "events w' = events w"
    using localize_loop_frame [OF r] w1 by simp
  have "e \<in> set (events w') \<and> metadata e ''lang'' = Some k"
    if "(k, es) \<in> set (localized_events w')" "e \<in> set es" for k es e
  proof -
    from localize_loop_mem [OF r that]
    consider xs0 where "(k, xs0) \<in> set (localized_events w)" "e \<in> set xs0"
      | "e \<in> set (events w)" "metadata e ''lang'' = Some k"
      using w1 by auto
    then show ?thesis
    proof cases
      case 1
      then have "e \<in> set (events w) \<and> metadata e ''lang'' = Some k"
        using assms unfolding store_inv_def by metis
      then show ?thesis using ev by simp
    next
      case 2
      then show ?thesis using ev by simp
    qed
  qed
  moreover have "distinct (events w')"
    using assms ev by (simp add: store_inv_def)
  ultimately show ?thesis
    using res unfolding store_inv_def by simp
qed

lemma store_inv_export:
  assumes "store_inv w"
  shows "store_inv (fst (generate_ical_file h g w))"
proof -
  let ?w' = "fst (generate_ical_file h g w)"
  from generate_ical_file_frame [of h g w]
  have ev: "events ?w' = events w"
    and loc: "localized_events ?w' = localized_events w
         \<or> localized_events ?w' = snd (dd_get (Str (DEFAULT_LANG (g_settings g))) (localized_events w))"
    by blast+
  have "e \<in> set (events ?w') \<and> metadata e ''lang'' = Some k"
    if "(k, es) \<in> set (localized_events ?w')" "e \<in> set es" for k es e
  proof -
    have "(k, es) \<in> set (localized_events w)"
      using loc that dd_get_snd_mem by metis
    then have "e \<in> set (events w) \<and> metadata e ''lang'' = Some k"
      using assms that(2) unfolding store_inv_def by metis
    then show ?thesis using ev by simp
  qed
  moreover have "distinct (events ?w')"
    using assms ev by (simp add: store_inv_def)
  ultimately show ?thesis
    unfolding store_inv_def by simp
qed

lemma store_inv_publish: "store_inv w \<Longrightarrow> store_inv (generate_events_list w)"
  by (simp add: store_inv_def generate_events_list_def)

lemma reachable_store_inv: "reachable w \<Longrightarrow> store_inv w"
proof (induction rule: reachable.induct)
  case (start w)
  then show ?case by (simp add: store_inv_def)
next
  case (reset w)
  show ?case by (rule store_inv_initialize)
next
  case (collect w cs)
  then show ?case by (simp add: store_inv_collect)
next
  case (localize w g)
  then show ?case by (simp add: store_inv_localize)
next
  case (export w h g)
  then show ?case by (simp add: store_inv_export)
next
  case (publish w)
  then show ?case by (simp add: store_inv_publish)
qed

lemma count_list_distinct:
  "x \<in> set xs \<Longrightarrow> distinct xs \<Longrightarrow> count_list xs x = 1"
  by (induction xs) auto

text \<open>
  C4. From a store without duplicates, when the loop of \<open>generate_events\<close> has collected
  the items \<open>cs\<close>, collecting the same items again changes nothing and raises nothing:
  the list stays free of duplicates and holds the event of every resolved item exactly
  once. \<open>initialize_events\<close> empties the list and the localized partitions, and a
  collection after it holds the events of the items offered and nothing else.
\<close>

theorem collect_dedup_and_reset:
  assumes "distinct (events w)"
      and "collect_events cs w = (w1, None)"
  shows "collect_events cs w1 = (w1, None)
       \<and> distinct (events w1)
       \<and> (\<forall>c \<in> set cs. \<forall>e. both_resolved c e \<longrightarrow> count_list (events w1) e = 1)
       \<and> events (initialize_events w1) = [] \<and> localized_events (initialize_events w1) = []
       \<and> (\<forall>w2. collect_events cs (initialize_events w1) = (w2, None) \<longrightarrow>
             (\<forall>e. e \<in> set (events w2) \<longleftrightarrow> (\<exists>c \<in> set cs. both_resolved c e)))"
proof (intro conjI ballI allI impI)
  show "collect_events cs w1 = (w1, None)"
    by (rule collect_events_twice [OF assms(2)])
  show d: "distinct (events w1)"
    by (rule collect_events_distinct [OF assms(2) assms(1)])
  show "count_list (events w1) e = 1" if "c \<in> set cs" "both_resolved c e" for c e
  proof -
    have "e \<in> set (events w1)"
      using collect_events_set [OF assms(2)] that by auto
    then show ?thesis using d by (rule count_list_distinct)
  qed
  show "events (initialize_events w1) = []" "localized_events (initialize_events w1) = []"
    by (simp_all add: initialize_events_def)
  show "e \<in> set (events w2) \<longleftrightarrow> (\<exists>c \<in> set cs. both_resolved c e)"
    if "collect_events cs (initialize_events w1) = (w2, None)" for w2 e
    using collect_events_set [OF that] by (simp add: initialize_events_def)
qed

lemma talk_attrs:
  "attrs talk_en ''event_start'' = Some party_start" "attrs talk_en ''event_end'' = Some party_end"
  "attrs talk_de ''event_start'' = Some party_end" "attrs talk_de ''event_end'' = Some party_end"
  by (simp_all add: talk_en_def talk_de_def set_event_attrs_def)

lemma event_en_neq_de: "event_de \<noteq> event_en"
  by (simp add: event_en_def event_de_def mk_event_def talk_en_def talk_de_def set_event_attrs_def)

lemma event_lang:
  "metadata event_en ''lang'' = Some (Str ''en'')" "metadata event_de ''lang'' = Some (Str ''de'')"
  by (simp_all add: event_en_def event_de_def mk_event_def talk_en_def talk_de_def talk_metadata_def)

lemma collect_talks:
  "collect_events [talk_en, talk_de] empty_world = (empty_world\<lparr>events := [event_en, event_de]\<rparr>, None)"
  using event_en_neq_de
  by (simp add: talk_attrs empty_world_def event_en_def [symmetric] event_de_def [symmetric])

lemma collect_talk_de:
  "collect_events [talk_de] empty_world = (empty_world\<lparr>events := [event_de]\<rparr>, None)"
  by (simp add: talk_attrs empty_world_def event_de_def [symmetric])

lemma localize_talks:
  "generate_localized_events \<lparr>g_settings = site [''i18n_subsites''] pe, generated_content = cs\<rparr>
     (empty_world\<lparr>events := [event_en, event_de]\<rparr>)
   = (empty_world\<lparr>events := [event_en, event_de], fs_dirs := [''output''],
                  localized_events := [(Str ''en'', [event_en]), (Str ''de'', [event_de])]\<rparr>, None)"
  by (simp add: generate_localized_events_def site_def empty_world_def event_lang Let_def)

lemma localize_talk_de:
  "generate_localized_events \<lparr>g_settings = site [''i18n_subsites''] pe, generated_content = cs\<rparr>
     (empty_world\<lparr>events := [event_de]\<rparr>)
   = (empty_world\<lparr>events := [event_de], fs_dirs := [''output''],
                  localized_events := [(Str ''de'', [event_de])]\<rparr>, None)"
  by (simp add: generate_localized_events_def site_def empty_world_def event_lang Let_def)

lemma ical_event_talks:
  "ical_event plain_host (site pl pe) event_en = Inr (vevent_of event_en ''talk'')"
  "ical_event plain_host (site pl pe) event_de = Inr (vevent_of event_de ''vortrag'')"
  by (simp_all add: ical_event_def bind_err_def plain_host_def site_def event_en_def event_de_def
      mk_event_def talk_en_def talk_de_def talk_metadata_def vevent_of_def py_str_def)

lemma curr_events_selected: "curr_events g w = selected_events g w"
  by (simp add: curr_events_def selected_events_def dd_get_def split: option.splits)

lemma ical_events_Inr_list_all2:
  "ical_events h st es = Inr ies \<Longrightarrow> list_all2 (\<lambda>e ie. ical_event h st e = Inr ie) es ies"
proof (induction es arbitrary: ies)
  case Nil
  then show ?case by simp
next
  case (Cons e es)
  from Cons.prems obtain ie where ie: "ical_event h st e = Inr ie"
    by (cases "ical_event h st e") (simp_all add: bind_err_def)
  from Cons.prems ie obtain ies' where ies': "ical_events h st es = Inr ies'"
    by (cases "ical_events h st es") (simp_all add: bind_err_def)
  have "ies = ie # ies'"
    using Cons.prems ie ies' by (simp add: bind_err_def)
  then show ?case
    using ie Cons.IH [OF ies'] by simp
qed

lemma list_all2_ical_events_Inr:
  "list_all2 (\<lambda>e ie. ical_event h st e = Inr ie) es ies \<Longrightarrow> ical_events h st es = Inr ies"
  by (induction rule: list_all2_induct) (simp_all add: bind_err_def)

lemma selected_events_default_lang:
  assumes "store_inv w" and "localized_events w \<noteq> []" and "e \<in> set (selected_events g w)"
  shows "metadata e ''lang'' = Some (Str (DEFAULT_LANG (g_settings g))) \<and> e \<in> set (events w)"
proof -
  obtain es where "map_of (localized_events w) (Str (DEFAULT_LANG (g_settings g))) = Some es"
    and "e \<in> set es"
    using assms(2,3)
    by (cases "map_of (localized_events w) (Str (DEFAULT_LANG (g_settings g)))")
       (simp_all add: selected_events_def)
  then have "(Str (DEFAULT_LANG (g_settings g)), es) \<in> set (localized_events w)"
    by (simp add: map_of_SomeD)
  then show ?thesis
    using assms(1) \<open>e \<in> set es\<close> unfolding store_inv_def by metis
qed

text \<open>
  C7, as the code has it. When the exporter is configured and completes, the calendar
  it writes holds one component per event of \<open>selected_events\<close>, in order: the partition
  of the default language when \<open>localized_events\<close> is not empty, the full list
  otherwise. In a state the hooks can reach, the events of a partition chosen this way
  all carry the default language's tag. Nothing of the kind holds for the full list.
\<close>

theorem exporter_selection:
  assumes "configured h g fname" and "generate_ical_file h g w = (w', None)"
  shows "(\<exists>ies. list_all2 (\<lambda>e ie. ical_event h (g_settings g) e = Inr ie) (selected_events g w) ies
              \<and> fs_files w' (ics_path h g fname) = Some (new_calendar ies))
       \<and> (reachable w \<and> localized_events w \<noteq> [] \<longrightarrow>
            (\<forall>e \<in> set (selected_events g w).
               metadata e ''lang'' = Some (Str (DEFAULT_LANG (g_settings g)))))"
proof (intro conjI impI ballI)
  obtain ies where ies: "ical_events h (g_settings g) (selected_events g w) = Inr ies"
    using assms(2) unfolding generate_ical_file_configured [OF assms(1)] curr_events_selected
    by (cases "ical_events h (g_settings g) (selected_events g w)") (auto split: if_splits)
  have "fs_files w' (ics_path h g fname) = Some (new_calendar ies)"
    using assms(2) ies unfolding generate_ical_file_configured [OF assms(1)] curr_events_selected
    by (auto simp: ics_path_def after_lookup_def split: if_splits)
  then show "\<exists>ies. list_all2 (\<lambda>e ie. ical_event h (g_settings g) e = Inr ie) (selected_events g w) ies
              \<and> fs_files w' (ics_path h g fname) = Some (new_calendar ies)"
    using ies ical_events_Inr_list_all2 by blast
next
  fix e assume a: "reachable w \<and> localized_events w \<noteq> []" and e: "e \<in> set (selected_events g w)"
  have "store_inv w" using a by (simp add: reachable_store_inv)
  from selected_events_default_lang [OF this _ e] a
  show "metadata e ''lang'' = Some (Str (DEFAULT_LANG (g_settings g)))" by simp
qed

text \<open>
  C6, as the code has it. When \<^verbatim>\<open>ics_fname\<close> is set to \<^verbatim>\<open>None\<close> or to the empty string,
  the exporter returns with the state unchanged (no file written) and no exception. When
  the key \<^verbatim>\<open>ics_fname\<close>, or \<^verbatim>\<open>PLUGIN_EVENTS\<close> itself, is missing, the subscript raises
  \<^verbatim>\<open>KeyError\<close>; the state is unchanged then too.
\<close>

theorem export_without_filename:
  "(PLUGIN_EVENTS (g_settings g) = Some pe
      \<and> (pe ''ics_fname'' = Some PNone \<or> pe ''ics_fname'' = Some (Str '''')) \<longrightarrow>
        generate_ical_file h g w = (w, None))
   \<and> (PLUGIN_EVENTS (g_settings g) = Some pe \<and> pe ''ics_fname'' = None \<longrightarrow>
        generate_ical_file h g w = (w, Some (KeyError ''ics_fname'')))
   \<and> (PLUGIN_EVENTS (g_settings g) = None \<longrightarrow>
        generate_ical_file h g w = (w, Some (KeyError ''PLUGIN_EVENTS'')))"
  by (auto simp: generate_ical_file_def truthy_def)

text \<open>
  C10. When partitions exist but no event carries the default language's tag, the
  configured exporter raises nothing and writes a calendar with the three document
  fields and no component; the event list is left as it was.
\<close>

theorem export_default_language_without_events:
  assumes "configured h g fname"
      and "reachable w"
      and "localized_events w \<noteq> []"
      and "\<forall>e \<in> set (events w). metadata e ''lang'' \<noteq> Some (Str (DEFAULT_LANG (g_settings g)))"
      and "can_open h (fs_dirs w) (ics_path h g fname)"
  shows "\<exists>w'. generate_ical_file h g w = (w', None)
            \<and> fs_files w' (ics_path h g fname)
                = Some \<lparr>prodid = ''-//pelican/events//mxm.dk//EN'', version = ''2.0'',
                         cal_method = ''PUBLISH'', components = []\<rparr>
            \<and> events w' = events w"
proof -
  have inv: "store_inv w" using assms(2) by (rule reachable_store_inv)
  have "selected_events g w = []"
  proof (rule ccontr)
    assume "selected_events g w \<noteq> []"
    then obtain e where e: "e \<in> set (selected_events g w)"
      by (cases "selected_events g w") auto
    from selected_events_default_lang [OF inv assms(3) e] assms(4)
    show False by blast
  qed
  then show ?thesis
    unfolding generate_ical_file_configured [OF assms(1)] curr_events_selected
    using assms(5) by (simp add: ics_path_def new_calendar_def after_lookup_def)
qed

lemma both_resolved_talks:
  "both_resolved talk_en event_en" "both_resolved talk_de event_de"
  by (auto simp: both_resolved_def talk_attrs event_en_def event_de_def)

lemma configured_plain:
  "configured plain_host (plain_gen with_ics cs) ''events.ics''"
  "configured plain_host (i18n_gen cs) ''events.ics''"
  by (simp_all add: configured_def plain_gen_def i18n_gen_def site_def with_ics_def plain_host_def)

lemma reachable_empty: "reachable empty_world"
  by (rule reachable.start) (simp_all add: empty_world_def)

lemma reachable_collected: "reachable collected"
proof -
  have "reachable (fst (collect_events [talk_en, talk_de] empty_world))"
    by (rule reachable.collect [OF reachable_empty])
  then show ?thesis unfolding collect_talks collected_def by simp
qed

lemma reachable_localized_de: "reachable localized_de"
proof -
  have "reachable (fst (collect_events [talk_de] empty_world))"
    by (rule reachable.collect [OF reachable_empty])
  then have "reachable (empty_world\<lparr>events := [event_de]\<rparr>)"
    unfolding collect_talk_de by simp
  then have "reachable (fst (generate_localized_events
      \<lparr>g_settings = site [''i18n_subsites''] with_ics, generated_content = []\<rparr>
      (empty_world\<lparr>events := [event_de]\<rparr>)))"
    by (rule reachable.localize)
  then show ?thesis unfolding localize_talk_de localized_de_def by simp
qed

lemma plain_host_simps:
  "path_join plain_host a b = a @ ''/'' @ b" "can_open plain_host ds p = True"
  "tz_known plain_host tz = (tz = ''UTC'')"
  by (simp_all add: plain_host_def)

lemma site_simps:
  "OUTPUT_PATH (site pl pe) = ''output''" "DEFAULT_LANG (site pl pe) = ''en''"
  "PLUGIN_EVENTS (site pl pe) = pe" "TIMEZONE (site pl pe) = ''UTC''"
  by (simp_all add: site_def)

lemma ical_events_talks:
  "ical_events plain_host (site pl pe) [event_en, event_de]
     = Inr [vevent_of event_en ''talk'', vevent_of event_de ''vortrag'']"
  by (simp add: ical_event_talks bind_err_def)

theorem collect_dedup_and_reset_witness:
  "distinct (events empty_world)
   \<and> collect_events [talk_en, talk_de] empty_world = (collected, None)
   \<and> collect_events [talk_en, talk_de] collected = (collected, None)
   \<and> count_list (events collected) event_en = 1
   \<and> events (initialize_events collected) = []"
proof -
  have d: "distinct (events empty_world)"
    by (simp add: empty_world_def)
  have c: "collect_events [talk_en, talk_de] empty_world = (collected, None)"
    unfolding collected_def by (rule collect_talks)
  note t = collect_dedup_and_reset [OF d c]
  have 1: "collect_events [talk_en, talk_de] collected = (collected, None)"
    using t by blast
  have "\<forall>c \<in> set [talk_en, talk_de]. \<forall>e. both_resolved c e \<longrightarrow> count_list (events collected) e = 1"
    using t by blast
  then have 2: "count_list (events collected) event_en = 1"
    using both_resolved_talks(1) by (meson list.set_intros(1))
  have 3: "events (initialize_events collected) = []"
    using t by blast
  show ?thesis using d c 1 2 3 by blast
qed

text \<open>
  C6 as stated fails where the setting is absent: with \<^verbatim>\<open>PLUGIN_EVENTS = {}\<close> the
  exporter raises \<^verbatim>\<open>KeyError\<close>.
\<close>

theorem export_without_filename_counterexample:
  "generate_ical_file plain_host (plain_gen (Some Map.empty) []) empty_world
     = (empty_world, Some (KeyError ''ics_fname''))"
  by (simp add: generate_ical_file_def plain_gen_def site_def)

theorem export_without_filename_witness:
  "generate_ical_file plain_host (plain_gen (ics_is (Str [])) []) collected = (collected, None)
   \<and> generate_ical_file plain_host (plain_gen (ics_is PNone) []) collected = (collected, None)
   \<and> generate_ical_file plain_host (plain_gen None []) collected
     = (collected, Some (KeyError ''PLUGIN_EVENTS''))"
proof -
  have g: "PLUGIN_EVENTS (g_settings (plain_gen pe [])) = pe" for pe
    by (simp add: plain_gen_def site_def)
  have "generate_ical_file plain_host (plain_gen (ics_is (Str [])) []) collected = (collected, None)"
    using export_without_filename [of "plain_gen (ics_is (Str [])) []"
        "[''ics_fname'' \<mapsto> Str []]" plain_host collected] g
    by (simp add: ics_is_def)
  moreover have "generate_ical_file plain_host (plain_gen (ics_is PNone) []) collected = (collected, None)"
    using export_without_filename [of "plain_gen (ics_is PNone) []"
        "[''ics_fname'' \<mapsto> PNone]" plain_host collected] g
    by (simp add: ics_is_def)
  moreover have "generate_ical_file plain_host (plain_gen None []) collected
     = (collected, Some (KeyError ''PLUGIN_EVENTS''))"
    using export_without_filename [of "plain_gen None []" Map.empty plain_host collected] g by simp
  ultimately show ?thesis by blast
qed

lemma export_collected:
  "generate_ical_file plain_host (plain_gen with_ics cs) collected
   = (collected\<lparr>fs_files := [''output/events.ics'' \<mapsto>
         new_calendar [vevent_of event_en ''talk'', vevent_of event_de ''vortrag'']]\<rparr>, None)"
proof -
  have c: "curr_events (plain_gen with_ics cs) collected = [event_en, event_de]"
    "after_lookup (plain_gen with_ics cs) collected = collected"
    "fs_files collected = Map.empty"
    by (simp_all add: curr_events_def after_lookup_def collected_def empty_world_def)
  have g: "g_settings (plain_gen with_ics cs) = site [] with_ics"
    by (simp add: plain_gen_def)
  show ?thesis
    unfolding generate_ical_file_configured [OF configured_plain(1)] c g ical_events_talks
    by (simp add: plain_host_simps site_simps)
qed

text \<open>
  C7 as stated fails when no partition exists: without the \<^verbatim>\<open>i18n_subsites\<close> plugin the
  full list is exported, here an event tagged \<^verbatim>\<open>en\<close> and one tagged \<^verbatim>\<open>de\<close> in one calendar.
\<close>

theorem exporter_selection_counterexample:
  "fs_files (fst (generate_ical_file plain_host (plain_gen with_ics [talk_en, talk_de]) collected))
     ''output/events.ics''
     = Some (new_calendar [vevent_of event_en ''talk'', vevent_of event_de ''vortrag''])
   \<and> ical_event plain_host (g_settings (plain_gen with_ics [talk_en, talk_de])) event_en
       = Inr (vevent_of event_en ''talk'')
   \<and> ical_event plain_host (g_settings (plain_gen with_ics [talk_en, talk_de])) event_de
       = Inr (vevent_of event_de ''vortrag'')
   \<and> metadata event_en ''lang'' = Some (Str ''en'')
   \<and> metadata event_de ''lang'' = Some (Str ''de'')"
proof -
  have g: "g_settings (plain_gen with_ics [talk_en, talk_de]) = site [] with_ics"
    by (simp add: plain_gen_def)
  show ?thesis
    unfolding export_collected g by (simp add: event_lang ical_event_talks)
qed

lemma reachable_localized_both: "reachable localized_both"
proof -
  have "reachable (fst (generate_localized_events
      \<lparr>g_settings = site [''i18n_subsites''] with_ics, generated_content = []\<rparr>
      (empty_world\<lparr>events := [event_en, event_de]\<rparr>)))"
    using reachable_collected unfolding collected_def by (rule reachable.localize)
  then show ?thesis unfolding localize_talks localized_both_def by simp
qed

lemma selected_localized_both: "selected_events (i18n_gen cs) localized_both = [event_en]"
  by (simp add: selected_events_def localized_both_def i18n_gen_def site_simps empty_world_def)

lemma selected_localized_de: "selected_events (i18n_gen cs) localized_de = []"
  by (simp add: selected_events_def localized_de_def i18n_gen_def site_simps empty_world_def)

lemma export_localized_both:
  "generate_ical_file plain_host (i18n_gen cs) localized_both = (exported_both, None)"
proof -
  have c: "curr_events (i18n_gen cs) localized_both = [event_en]"
    unfolding curr_events_selected by (rule selected_localized_both)
  have a: "after_lookup (i18n_gen cs) localized_both = localized_both"
    by (simp add: after_lookup_def localized_both_def i18n_gen_def site_simps empty_world_def
        dd_get_def)
  have f: "fs_files localized_both = Map.empty"
    by (simp add: localized_both_def empty_world_def)
  have g: "g_settings (i18n_gen cs) = site [''i18n_subsites''] with_ics"
    by (simp add: i18n_gen_def)
  have i: "ical_events plain_host (site [''i18n_subsites''] with_ics) [event_en]
             = Inr [vevent_of event_en ''talk'']"
    by (simp add: ical_event_talks bind_err_def)
  show ?thesis
    unfolding generate_ical_file_configured [OF configured_plain(2)] c a g i f
    by (simp add: plain_host_simps site_simps exported_both_def)
qed

theorem exporter_selection_witness:
  "configured plain_host (i18n_gen []) ''events.ics''
   \<and> generate_ical_file plain_host (i18n_gen []) localized_both = (exported_both, None)
   \<and> reachable localized_both \<and> localized_events localized_both \<noteq> []
   \<and> selected_events (i18n_gen []) localized_both = [event_en]
   \<and> (\<exists>ies. list_all2 (\<lambda>e ie. ical_event plain_host (g_settings (i18n_gen [])) e = Inr ie) [event_en] ies
          \<and> fs_files exported_both (ics_path plain_host (i18n_gen []) ''events.ics'')
              = Some (new_calendar ies))
   \<and> metadata event_en ''lang'' = Some (Str (DEFAULT_LANG (g_settings (i18n_gen []))))"
proof -
  note t = exporter_selection [OF configured_plain(2) export_localized_both]
  have n: "localized_events localized_both \<noteq> []"
    by (simp add: localized_both_def)
  have 1: "\<exists>ies. list_all2 (\<lambda>e ie. ical_event plain_host (g_settings (i18n_gen [])) e = Inr ie) [event_en] ies
          \<and> fs_files exported_both (ics_path plain_host (i18n_gen []) ''events.ics'')
              = Some (new_calendar ies)"
    using t unfolding selected_localized_both by blast
  have "\<forall>e \<in> set [event_en]. metadata e ''lang'' = Some (Str (DEFAULT_LANG (g_settings (i18n_gen []))))"
    using t reachable_localized_both n unfolding selected_localized_both by blast
  then have 2: "metadata event_en ''lang'' = Some (Str (DEFAULT_LANG (g_settings (i18n_gen []))))"
    by simp
  show ?thesis
    using configured_plain(2) export_localized_both reachable_localized_both n
      selected_localized_both 1 2 by blast
qed

theorem export_default_language_without_events_witness:
  "configured plain_host (i18n_gen []) ''events.ics''
   \<and> reachable localized_de
   \<and> localized_events localized_de \<noteq> []
   \<and> events localized_de = [event_de]
   \<and> metadata event_de ''lang'' = Some (Str ''de'')
   \<and> can_open plain_host (fs_dirs localized_de) (ics_path plain_host (i18n_gen []) ''events.ics'')
   \<and> (\<exists>w'. generate_ical_file plain_host (i18n_gen []) localized_de = (w', None)
          \<and> fs_files w' (ics_path plain_host (i18n_gen []) ''events.ics'')
                = Some \<lparr>prodid = ''-//pelican/events//mxm.dk//EN'', version = ''2.0'',
                         cal_method = ''PUBLISH'', components = []\<rparr>
          \<and> events w' = events localized_de)"
proof -
  have n: "localized_events localized_de \<noteq> []"
    by (simp add: localized_de_def)
  have e: "events localized_de = [event_de]"
    by (simp add: localized_de_def empty_world_def)
  have l: "\<forall>e \<in> set (events localized_de).
             metadata e ''lang'' \<noteq> Some (Str (DEFAULT_LANG (g_settings (i18n_gen []))))"
    unfolding e by (simp add: event_lang i18n_gen_def site_simps)
  have o: "can_open plain_host (fs_dirs localized_de) (ics_path plain_host (i18n_gen []) ''events.ics'')"
    by (simp add: plain_host_simps)
  note t = export_default_language_without_events
             [OF configured_plain(2) reachable_localized_de n l o]
  show ?thesis
    using configured_plain(2) reachable_localized_de n e event_lang(2) o t by blast
qed

section \<open>The published listing\<close>

lemma mset_sorted_reverse: "mset (sorted_reverse xs) = mset xs"
  by (simp add: sorted_reverse_def)

text \<open>
  C5. What \<open>generate_events_list\<close> publishes is the single list when no partition
  exists and one list per language otherwise, under the same keys in the same order.
  Every published list holds the events of the list it was made from, each as often as
  there, is non-increasing in (start, end), compared lexicographically (\<open>descending\<close>),
  and sorting it again returns it unchanged.
\<close>

theorem published_list_descending:
  "(case events_list (generate_events_list w) of
      None \<Rightarrow> False
    | Some (EventList xs) \<Rightarrow>
        localized_events w = [] \<and> mset xs = mset (events w)
        \<and> descending xs \<and> sorted_reverse xs = xs
    | Some (EventDict d) \<Rightarrow>
        localized_events w \<noteq> []
        \<and> list_all2 (\<lambda>(k, xs) (k', v). k = k' \<and> mset xs = mset v
                        \<and> descending xs \<and> sorted_reverse xs = xs) d (localized_events w))"
proof (cases "localized_events w = []")
  case True
  then show ?thesis
    by (simp add: generate_events_list_def mset_sorted_reverse descending_sorted_reverse
        sorted_reverse_idem)
next
  case False
  have "list_all2 (\<lambda>(k, xs) (k', v). k = k' \<and> mset xs = mset v
                        \<and> descending xs \<and> sorted_reverse xs = xs)
          (map (\<lambda>(k, v). (k, sorted_reverse v)) l) l" for l :: "(pyval \<times> event list) list"
    by (induction l)
      (auto simp: mset_sorted_reverse descending_sorted_reverse sorted_reverse_idem)
  then show ?thesis
    using False by (simp add: generate_events_list_def)
qed

lemma publish_collected:
  "events_list (generate_events_list collected) = Some (EventList [event_de, event_en])"
  by (simp add: generate_events_list_def collected_def empty_world_def sorted_reverse_def
      event_key_def dt_tuple_def event_en_def event_de_def mk_event_def party_start_def party_end_def)

lemma publish_localized_mixed:
  "events_list (generate_events_list localized_mixed)
     = Some (EventDict [(Str ''en'', [event_late, event_en, event_short]), (Str ''de'', [event_de])])"
  by (simp add: generate_events_list_def localized_mixed_def empty_world_def sorted_reverse_def
      event_key_def dt_tuple_def event_en_def event_de_def event_late_def event_short_def
      mk_event_def party_start_def party_end_def)

text \<open>
  The single list of two talks, and the lists of two languages: the English talks were
  collected as 10:00 to 10:00, 10:00 to 12:00 and 12:00 to 12:00, and are published
  latest start first, the later end first among equal starts.
\<close>

theorem published_list_descending_witness:
  "events_list (generate_events_list collected) = Some (EventList [event_de, event_en])
   \<and> mset [event_de, event_en] = mset (events collected)
   \<and> descending [event_de, event_en]
   \<and> sorted_reverse [event_de, event_en] = [event_de, event_en]
   \<and> events_list (generate_events_list localized_mixed)
       = Some (EventDict [(Str ''en'', [event_late, event_en, event_short]), (Str ''de'', [event_de])])
   \<and> mset [event_late, event_en, event_short] = mset [event_short, event_en, event_late]
   \<and> descending [event_late, event_en, event_short]
   \<and> sorted_reverse [event_late, event_en, event_short] = [event_late, event_en, event_short]
   \<and> descending [event_de]"
proof -
  have 1: "mset [event_de, event_en] = mset (events collected)
     \<and> descending [event_de, event_en]
     \<and> sorted_reverse [event_de, event_en] = [event_de, event_en]"
    using published_list_descending [of collected] unfolding publish_collected by simp
  have 2: "mset [event_late, event_en, event_short] = mset [event_short, event_en, event_late]
     \<and> descending [event_late, event_en, event_short]
     \<and> sorted_reverse [event_late, event_en, event_short] = [event_late, event_en, event_short]
     \<and> descending [event_de]"
    using published_list_descending [of localized_mixed] unfolding publish_localized_mixed
    by (simp add: localized_mixed_def)
  show ?thesis using 1 2 publish_collected publish_localized_mixed by blast
qed

section \<open>The store invariant\<close>

lemma generate_localized_events_events:
  "events (fst (generate_localized_events g w)) = events w"
proof (cases "''i18n_subsites'' \<in> set (PLUGINS (g_settings g))")
  case True
  let ?w1 = "if OUTPUT_PATH (g_settings g) \<in> set (fs_dirs w) then w
             else w\<lparr>fs_dirs := fs_dirs w @ [OUTPUT_PATH (g_settings g)]\<rparr>"
  obtain w' err where l: "localize_loop (events ?w1) ?w1 = (w', err)"
    by (cases "localize_loop (events ?w1) ?w1")
  have "events w' = events ?w1" using localize_loop_frame [OF l] by blast
  moreover have "fst (generate_localized_events g w) = w'"
    using True l by (simp add: generate_localized_events_def Let_def)
  ultimately show ?thesis by simp
next
  case False
  then show ?thesis by (simp add: generate_localized_events_def)
qed

lemma pass_states_events:
  assumes "w' \<in> set (pass_states h g w1)"
  shows "events w' = events w1"
proof -
  let ?w2 = "fst (generate_localized_events g w1)"
  let ?w3 = "fst (generate_ical_file h g ?w2)"
  have 2: "events ?w2 = events w1" by (rule generate_localized_events_events)
  have 3: "events ?w3 = events ?w2" using generate_ical_file_frame [of h g ?w2] by blast
  have 4: "events (generate_events_list ?w3) = events ?w3" by (simp add: generate_events_list_def)
  from assms have "w' = w1 \<or> w' = ?w2 \<or> w' = ?w3 \<or> w' = generate_events_list ?w3"
    by (simp add: pass_states_def Let_def)
  then show ?thesis using 2 3 4 by auto
qed

lemma pass_states_reachable:
  assumes "reachable w1" "w' \<in> set (pass_states h g w1)"
  shows "reachable w'"
proof -
  let ?w2 = "fst (generate_localized_events g w1)"
  let ?w3 = "fst (generate_ical_file h g ?w2)"
  have r2: "reachable ?w2" using assms(1) by (rule reachable.localize)
  have r3: "reachable ?w3" using r2 by (rule reachable.export)
  have r4: "reachable (generate_events_list ?w3)" using r3 by (rule reachable.publish)
  from assms(2) have "w' = w1 \<or> w' = ?w2 \<or> w' = ?w3 \<or> w' = generate_events_list ?w3"
    by (simp add: pass_states_def Let_def)
  then show ?thesis using assms(1) r2 r3 r4 by auto
qed

lemma generate_events_in_pass:
  assumes "collect_events (generated_content g) w = (w1, None)"
  shows "fst (generate_events h g w) \<in> set (pass_states h g w1)"
proof -
  obtain w2 e2 where l: "generate_localized_events g w1 = (w2, e2)"
    by (cases "generate_localized_events g w1")
  obtain w3 e3 where x: "generate_ical_file h g w2 = (w3, e3)"
    by (cases "generate_ical_file h g w2")
  have p: "pass_states h g w1 = [w1, w2, w3, generate_events_list w3]"
    by (simp add: pass_states_def l x)
  have "fst (generate_events h g w) = w2 \<or> fst (generate_events h g w) = w3
        \<or> fst (generate_events h g w) = generate_events_list w3"
    by (cases e2; cases e3) (simp_all add: generate_events_def then_do_def assms l x)
  then show ?thesis unfolding p by auto
qed

lemma collect_events_total:
  "\<forall>c \<in> set cs. attrs c ''event_start'' \<noteq> None \<longrightarrow> attrs c ''event_end'' \<noteq> None \<Longrightarrow>
     \<exists>w1. collect_events cs w = (w1, None)"
proof (induction cs arbitrary: w)
  case Nil
  show ?case by simp
next
  case (Cons c cs)
  then have t: "\<exists>w1. collect_events cs w' = (w1, None)" for w'
    by simp
  show ?case
  proof (cases "attrs c ''event_start''")
    case None
    then show ?thesis using t [of w] by simp
  next
    case (Some s)
    then obtain e where e: "attrs c ''event_end'' = Some e"
      using Cons.prems by auto
    show ?thesis
      using t [of "if mk_event c s e \<in> set (events w) then w
                   else w\<lparr>events := events w @ [mk_event c s e]\<rparr>"]
      by (simp add: Some e)
  qed
qed

text \<open>
  C8. In every state the hooks can reach, each event of each localized partition is
  in the event list. In a pass, \<open>initialize_events\<close> and then \<open>generate_events\<close>, the
  collecting loop completes when every item that carries \<open>event_start\<close> also carries
  \<open>event_end\<close>, as every item the resolver has handled does. When it has completed, the
  hook ends, raising or not, in one of the states of \<open>pass_states\<close>: the state the loop
  leaves, and the states after the partitioning, after the export and after the
  publishing. In each of them an event is in the list exactly when it is the event of
  one of the generator's content items that carries both \<open>event_start\<close> and \<open>event_end\<close>.
\<close>

theorem store_invariant:
  "(reachable w \<longrightarrow>
      (\<forall>(k, es) \<in> set (localized_events w). set es \<subseteq> set (events w)))
   \<and> ((\<forall>c \<in> set (generated_content g).
          attrs c ''event_start'' \<noteq> None \<longrightarrow> attrs c ''event_end'' \<noteq> None) \<longrightarrow>
        (\<exists>w1. collect_events (generated_content g) (initialize_events w0) = (w1, None)))
   \<and> (collect_events (generated_content g) (initialize_events w0) = (w1, None) \<longrightarrow>
        fst (generate_events h g (initialize_events w0)) \<in> set (pass_states h g w1)
        \<and> (\<forall>w' \<in> set (pass_states h g w1).
              reachable w'
              \<and> (\<forall>e. e \<in> set (events w') \<longleftrightarrow>
                       (\<exists>c \<in> set (generated_content g). both_resolved c e))))"
proof -
  have 1: "reachable w \<longrightarrow>
      (\<forall>(k, es) \<in> set (localized_events w). set es \<subseteq> set (events w))"
  proof
    assume "reachable w"
    then have "store_inv w" by (rule reachable_store_inv)
    then show "\<forall>(k, es) \<in> set (localized_events w). set es \<subseteq> set (events w)"
      by (auto simp: store_inv_def)
  qed
  have 2: "(\<forall>c \<in> set (generated_content g).
          attrs c ''event_start'' \<noteq> None \<longrightarrow> attrs c ''event_end'' \<noteq> None) \<longrightarrow>
        (\<exists>w1. collect_events (generated_content g) (initialize_events w0) = (w1, None))"
    using collect_events_total [of "generated_content g" "initialize_events w0"] by blast
  have 3: "collect_events (generated_content g) (initialize_events w0) = (w1, None) \<longrightarrow>
        fst (generate_events h g (initialize_events w0)) \<in> set (pass_states h g w1)
        \<and> (\<forall>w' \<in> set (pass_states h g w1).
              reachable w'
              \<and> (\<forall>e. e \<in> set (events w') \<longleftrightarrow>
                       (\<exists>c \<in> set (generated_content g). both_resolved c e)))"
  proof (intro impI conjI ballI)
    assume "collect_events (generated_content g) (initialize_events w0) = (w1, None)"
    then show "fst (generate_events h g (initialize_events w0)) \<in> set (pass_states h g w1)"
      by (rule generate_events_in_pass)
  next
    fix w'
    assume c: "collect_events (generated_content g) (initialize_events w0) = (w1, None)"
      and p: "w' \<in> set (pass_states h g w1)"
    have "reachable (initialize_events w0)"
      by (rule reachable.start) (simp_all add: initialize_events_def)
    then have "reachable (fst (collect_events (generated_content g) (initialize_events w0)))"
      by (rule reachable.collect)
    then have "reachable w1" by (simp add: c)
    then show "reachable w'" using p by (rule pass_states_reachable)
  next
    fix w'
    assume c: "collect_events (generated_content g) (initialize_events w0) = (w1, None)"
      and p: "w' \<in> set (pass_states h g w1)"
    have "set (events w1) = {e. \<exists>c \<in> set (generated_content g). both_resolved c e}"
      using collect_events_set [OF c] by (simp add: initialize_events_def)
    then show "\<forall>e. e \<in> set (events w') \<longleftrightarrow> (\<exists>c \<in> set (generated_content g). both_resolved c e)"
      unfolding pass_states_events [OF p] by blast
  qed
  show ?thesis
    by (intro conjI) (rule 1, rule 2, rule 3)
qed

lemma pass_without_settings:
  "generate_events plain_host (plain_gen None [talk_en, talk_de]) (initialize_events empty_world)
     = (collected, Some (KeyError ''PLUGIN_EVENTS''))"
proof -
  have i: "initialize_events empty_world = empty_world"
    by (simp add: initialize_events_def empty_world_def)
  have c: "collect_events (generated_content (plain_gen None [talk_en, talk_de])) empty_world
             = (collected, None)"
  proof -
    have gc: "generated_content (plain_gen None [talk_en, talk_de]) = [talk_en, talk_de]"
      by (simp add: plain_gen_def)
    show ?thesis unfolding gc collect_talks collected_def ..
  qed
  have l: "generate_localized_events (plain_gen None [talk_en, talk_de]) collected = (collected, None)"
    by (simp add: generate_localized_events_def plain_gen_def site_def)
  have x: "generate_ical_file plain_host (plain_gen None [talk_en, talk_de]) collected
             = (collected, Some (KeyError ''PLUGIN_EVENTS''))"
    by (simp add: generate_ical_file_def plain_gen_def site_def)
  show ?thesis
    by (simp add: generate_events_def i then_do_def c l x)
qed

lemma pass_with_languages:
  "generate_events plain_host (i18n_gen [talk_en, talk_de]) (initialize_events empty_world)
     = (generate_events_list exported_both, None)"
proof -
  have i: "initialize_events empty_world = empty_world"
    by (simp add: initialize_events_def empty_world_def)
  have s1: "collect_events (generated_content (i18n_gen [talk_en, talk_de])) empty_world = (collected, None)"
  proof -
    have gc: "generated_content (i18n_gen [talk_en, talk_de]) = [talk_en, talk_de]"
      by (simp add: i18n_gen_def)
    show ?thesis unfolding gc collect_talks collected_def ..
  qed
  have s2: "generate_localized_events (i18n_gen [talk_en, talk_de]) collected = (localized_both, None)"
    unfolding i18n_gen_def collected_def localize_talks localized_both_def by simp
  show ?thesis
    by (simp add: generate_events_def i then_do_def s1 s2 export_localized_both)
qed

text \<open>
  A state with two partitions; a pass whose export raises because the site has no
  \<^verbatim>\<open>PLUGIN_EVENTS\<close> setting, which ends in the state the collecting loop left; and a pass
  that completes on a site with two languages. The event of the English talk is in the
  list after both.
\<close>

theorem store_invariant_witness:
  "reachable localized_both
   \<and> (Str ''de'', [event_de]) \<in> set (localized_events localized_both)
   \<and> set [event_de] \<subseteq> set (events localized_both)
   \<and> list_all (\<lambda>c. attrs c ''event_start'' \<noteq> None \<and> attrs c ''event_end'' \<noteq> None) [talk_en, talk_de]
   \<and> collect_events [talk_en, talk_de] (initialize_events empty_world) = (collected, None)
   \<and> generate_events plain_host (plain_gen None [talk_en, talk_de]) (initialize_events empty_world)
       = (collected, Some (KeyError ''PLUGIN_EVENTS''))
   \<and> generate_events plain_host (i18n_gen [talk_en, talk_de]) (initialize_events empty_world)
       = (generate_events_list exported_both, None)
   \<and> both_resolved talk_en event_en
   \<and> event_en \<in> set (events collected)
   \<and> event_en \<in> set (events (generate_events_list exported_both))"
proof -
  have i: "initialize_events empty_world = empty_world"
    by (simp add: initialize_events_def empty_world_def)
  have c: "collect_events [talk_en, talk_de] (initialize_events empty_world) = (collected, None)"
    unfolding i collected_def by (rule collect_talks)
  have a: "list_all (\<lambda>c. attrs c ''event_start'' \<noteq> None \<and> attrs c ''event_end'' \<noteq> None) [talk_en, talk_de]"
    by (simp add: talk_attrs)
  have gp: "generated_content (plain_gen None [talk_en, talk_de]) = [talk_en, talk_de]"
    by (simp add: plain_gen_def)
  have gi: "generated_content (i18n_gen [talk_en, talk_de]) = [talk_en, talk_de]"
    by (simp add: i18n_gen_def)
  note t1 = store_invariant [where w = localized_both and h = plain_host
      and g = "plain_gen None [talk_en, talk_de]" and ?w0.0 = empty_world and ?w1.0 = collected]
  note t2 = store_invariant [where w = localized_both and h = plain_host
      and g = "i18n_gen [talk_en, talk_de]" and ?w0.0 = empty_world and ?w1.0 = collected]
  have m: "(Str ''de'', [event_de]) \<in> set (localized_events localized_both)"
    by (simp add: localized_both_def)
  have "\<forall>(k, es) \<in> set (localized_events localized_both). set es \<subseteq> set (events localized_both)"
    using t1 reachable_localized_both by blast
  then have 1: "set [event_de] \<subseteq> set (events localized_both)"
    using m by blast
  have p1: "fst (generate_events plain_host (plain_gen None [talk_en, talk_de]) (initialize_events empty_world))
          \<in> set (pass_states plain_host (plain_gen None [talk_en, talk_de]) collected)"
    and q1: "\<forall>w' \<in> set (pass_states plain_host (plain_gen None [talk_en, talk_de]) collected).
          reachable w' \<and> (\<forall>e. e \<in> set (events w') \<longleftrightarrow>
             (\<exists>c \<in> set (generated_content (plain_gen None [talk_en, talk_de])). both_resolved c e))"
    using t1 c unfolding gp by blast+
  have "collected \<in> set (pass_states plain_host (plain_gen None [talk_en, talk_de]) collected)"
    using p1 unfolding pass_without_settings by simp
  then have "\<forall>e. e \<in> set (events collected) \<longleftrightarrow>
             (\<exists>c \<in> set (generated_content (plain_gen None [talk_en, talk_de])). both_resolved c e)"
    using q1 by blast
  then have 2: "event_en \<in> set (events collected)"
    unfolding gp using both_resolved_talks(1) by (meson list.set_intros(1))
  have p2: "fst (generate_events plain_host (i18n_gen [talk_en, talk_de]) (initialize_events empty_world))
          \<in> set (pass_states plain_host (i18n_gen [talk_en, talk_de]) collected)"
    and q2: "\<forall>w' \<in> set (pass_states plain_host (i18n_gen [talk_en, talk_de]) collected).
          reachable w' \<and> (\<forall>e. e \<in> set (events w') \<longleftrightarrow>
             (\<exists>c \<in> set (generated_content (i18n_gen [talk_en, talk_de])). both_resolved c e))"
    using t2 c unfolding gi by blast+
  have "generate_events_list exported_both
          \<in> set (pass_states plain_host (i18n_gen [talk_en, talk_de]) collected)"
    using p2 unfolding pass_with_languages by simp
  then have "\<forall>e. e \<in> set (events (generate_events_list exported_both)) \<longleftrightarrow>
             (\<exists>c \<in> set (generated_content (i18n_gen [talk_en, talk_de])). both_resolved c e)"
    using q2 by blast
  then have 3: "event_en \<in> set (events (generate_events_list exported_both))"
    unfolding gi using both_resolved_talks(1) by (meson list.set_intros(1))
  show ?thesis
    using reachable_localized_both m 1 a c pass_without_settings pass_with_languages
      both_resolved_talks(1) 2 3 by blast
qed

end
